theory Spec2Isabelle
  imports Complex_Main
begin

section \<open>Loops\<close>

text \<open>
  Every loop of the sources has the form \<^verbatim>\<open>for (let i = 0; i < n; i++) { ... }\<close>.
  \<open>for_loop i n body s\<close> runs the loop body for the indices \<open>i, i + 1, ..., n - 1\<close>
  on the state \<open>s\<close> of the mutable variables and buffers the body touches.
\<close>

function for_loop :: "nat \<Rightarrow> nat \<Rightarrow> (nat \<Rightarrow> 's \<Rightarrow> 's) \<Rightarrow> 's \<Rightarrow> 's" where
  "for_loop i n body s = (if i < n then for_loop (Suc i) n body (body i s) else s)"
  by pat_completeness auto
termination
  by (relation "measure (\<lambda>(i, n, body, s). n - i)") auto

declare for_loop.simps [simp del]

section \<open>Numbers\<close>

text \<open>
  JavaScript numbers are IEEE 754 doubles and the elements of a \<^verbatim>\<open>Float32Array\<close> are IEEE
  754 single-precision numbers.  The model keeps the value of an arithmetic expression as
  the real number the expression denotes, and rounds at the two places where a rounded
  result is stored and read again by a later call: every store into a
  \<^verbatim>\<open>Float32Array\<close> rounds to single precision (\<open>binary32\<close>), and the subtraction that
  lowers the openness of the gesture state, repeated once per frame on its own result,
  rounds to double precision (\<open>binary64\<close>), as does its literal.

  \<open>round_to p emin x\<close> is the number with at most \<open>p\<close> significant bits and least exponent
  \<open>emin\<close> of its last bit that is nearest to \<open>x\<close>, ties going to the even significand.
  Overflow to an infinity is not modelled.
\<close>

definition round_ties_even :: "real \<Rightarrow> int" where
  "round_ties_even x =
     (let n = \<lfloor>x\<rfloor>
      in if x - of_int n < 1 / 2 then n
         else if 1 / 2 < x - of_int n then n + 1
         else if even n then n else n + 1)"

definition last_place :: "nat \<Rightarrow> int \<Rightarrow> real \<Rightarrow> int" where
  "last_place p emin x = max (\<lfloor>log 2 \<bar>x\<bar>\<rfloor> - (int p - 1)) emin"

definition round_to :: "nat \<Rightarrow> int \<Rightarrow> real \<Rightarrow> real" where
  "round_to p emin x =
     (if x = 0 then 0
      else of_int (round_ties_even (x / 2 powr of_int (last_place p emin x)))
             * 2 powr of_int (last_place p emin x))"

definition binary32 :: "real \<Rightarrow> real" where
  "binary32 = round_to 24 (- 149)"

definition binary64 :: "real \<Rightarrow> real" where
  "binary64 = round_to 53 (- 1074)"

section \<open>Shape generator (src/services/geometry.ts)\<close>

text \<open>
  \<^verbatim>\<open>Math.random()\<close> is an input: a value of type \<open>rng\<close> gives the number returned by
  the \<open>k\<close>-th call, and the loops thread the number of calls made so far through their
  state.  A \<^verbatim>\<open>Float32Array\<close> is a list of reals; \<^verbatim>\<open>new Float32Array(n)\<close> is \<open>n\<close> zeros,
  a store into it rounds the stored value with \<open>binary32\<close>, and a store outside the array
  is ignored, as \<open>xs[i := v]\<close> does.
\<close>

type_synonym rng = "nat \<Rightarrow> real"

text \<open>The random source whose every draw is \<open>c\<close>, for concrete runs.\<close>

definition constant_draws :: "real \<Rightarrow> rng" where
  "constant_draws c k = c"

definition PARTICLE_COUNT :: nat where
  "PARTICLE_COUNT = 4000"

definition randomOnSphere :: "rng \<Rightarrow> nat \<Rightarrow> (real \<times> real \<times> real) \<times> nat" where
  "randomOnSphere rs k =
     (let theta = rs k * pi * 2;
          phi = arccos (2 * rs (k + 1) - 1);
          r = 4 + rs (k + 2)
      in ((r * sin phi * cos theta, r * sin phi * sin theta, r * cos phi), k + 3))"

definition generateTreePoints_body :: "nat \<Rightarrow> rng \<Rightarrow> nat \<Rightarrow> nat \<times> real list \<Rightarrow> nat \<times> real list" where
  "generateTreePoints_body count rs i st =
     (case st of (k, positions) \<Rightarrow>
        let t = real i / real count;
            angle = t * pi * 20;
            radius = t * 3.5;
            x = cos angle * radius + (rs k - 0.5) * 0.5;
            y = - 3 + (1 - t) * 7;
            z = sin angle * radius + (rs (k + 1) - 0.5) * 0.5
        in (k + 2, positions[i * 3 := binary32 x, i * 3 + 1 := binary32 y, i * 3 + 2 := binary32 z]))"

definition generateTreePoints :: "nat \<Rightarrow> rng \<Rightarrow> real list" where
  "generateTreePoints count rs =
     snd (for_loop 0 count (generateTreePoints_body count rs) (0, replicate (count * 3) 0))"

definition generateHeartPoints_body :: "rng \<Rightarrow> nat \<Rightarrow> nat \<times> real list \<Rightarrow> nat \<times> real list" where
  "generateHeartPoints_body rs i st =
     (case st of (k, positions) \<Rightarrow>
        let t = rs k * pi * 2;
            r = rs (k + 1);
            scale = 0.25;
            x = 16 * (sin t) ^ 3 * scale * (0.8 + r * 0.2);
            y = (13 * cos t - 5 * cos (2 * t) - 2 * cos (3 * t) - cos (4 * t)) * scale
                  * (0.8 + r * 0.2);
            z = (rs (k + 2) - 0.5) * 2
        in (k + 3, positions[i * 3 := binary32 x, i * 3 + 1 := binary32 y, i * 3 + 2 := binary32 z]))"

definition generateHeartPoints :: "nat \<Rightarrow> rng \<Rightarrow> real list" where
  "generateHeartPoints count rs =
     snd (for_loop 0 count (generateHeartPoints_body rs) (0, replicate (count * 3) 0))"

definition generateSpherePoints_body :: "rng \<Rightarrow> nat \<Rightarrow> nat \<times> real list \<Rightarrow> nat \<times> real list" where
  "generateSpherePoints_body rs i st =
     (case st of (k, positions) \<Rightarrow>
        (case randomOnSphere rs k of ((vx, vy, vz), k') \<Rightarrow>
           (k', positions[i * 3 := binary32 vx, i * 3 + 1 := binary32 vy,
                        i * 3 + 2 := binary32 vz])))"

definition generateSpherePoints :: "nat \<Rightarrow> rng \<Rightarrow> real list" where
  "generateSpherePoints count rs =
     snd (for_loop 0 count (generateSpherePoints_body rs) (0, replicate (count * 3) 0))"

definition generateStarPoints_body :: "rng \<Rightarrow> nat \<Rightarrow> nat \<times> real list \<Rightarrow> nat \<times> real list" where
  "generateStarPoints_body rs i st =
     (case st of (k, positions) \<Rightarrow>
        let theta = rs k * pi * 2;
            rBase = 3;
            spike = \<bar>sin (theta * 2.5)\<bar>;
            r = rBase + spike * 2.5;
            x = r * cos theta * rs (k + 1);
            y = r * sin theta * rs (k + 2);
            z = (rs (k + 3) - 0.5) * 1.5
        in (k + 4, positions[i * 3 := binary32 x, i * 3 + 1 := binary32 y, i * 3 + 2 := binary32 z]))"

definition generateStarPoints :: "nat \<Rightarrow> rng \<Rightarrow> real list" where
  "generateStarPoints count rs =
     snd (for_loop 0 count (generateStarPoints_body rs) (0, replicate (count * 3) 0))"

definition generateFlowerPoints_body :: "rng \<Rightarrow> nat \<Rightarrow> nat \<times> real list \<Rightarrow> nat \<times> real list" where
  "generateFlowerPoints_body rs i st =
     (case st of (k, positions) \<Rightarrow>
        let kp = 4;
            theta = rs k * pi * 2;
            rMax = 4;
            r = rMax * cos (kp * theta) * rs (k + 1);
            x = r * cos theta;
            y = r * sin theta;
            z = sin r * 1.5 + (rs (k + 2) - 0.5)
        in (k + 3, positions[i * 3 := binary32 x, i * 3 + 1 := binary32 y, i * 3 + 2 := binary32 z]))"

definition generateFlowerPoints :: "nat \<Rightarrow> rng \<Rightarrow> real list" where
  "generateFlowerPoints count rs =
     snd (for_loop 0 count (generateFlowerPoints_body rs) (0, replicate (count * 3) 0))"

datatype ShapeType = TREE | HEART | STAR | SPHERE | FLOWER

text \<open>The \<^verbatim>\<open>switch (shape)\<close> of the retarget effect in ParticleSystem.tsx, at any count.\<close>

definition generate :: "ShapeType \<Rightarrow> nat \<Rightarrow> rng \<Rightarrow> real list" where
  "generate shape count rs =
     (case shape of
        HEART \<Rightarrow> generateHeartPoints count rs
      | STAR \<Rightarrow> generateStarPoints count rs
      | SPHERE \<Rightarrow> generateSpherePoints count rs
      | FLOWER \<Rightarrow> generateFlowerPoints count rs
      | TREE \<Rightarrow> generateTreePoints count rs)"

text \<open>
  The loop body of each generator and the number of \<^verbatim>\<open>Math.random()\<close> calls one
  iteration makes, by shape.
\<close>

definition shape_body :: "ShapeType \<Rightarrow> nat \<Rightarrow> rng \<Rightarrow> nat \<Rightarrow> nat \<times> real list \<Rightarrow> nat \<times> real list" where
  "shape_body shape count rs =
     (case shape of
        HEART \<Rightarrow> generateHeartPoints_body rs
      | STAR \<Rightarrow> generateStarPoints_body rs
      | SPHERE \<Rightarrow> generateSpherePoints_body rs
      | FLOWER \<Rightarrow> generateFlowerPoints_body rs
      | TREE \<Rightarrow> generateTreePoints_body count rs)"

definition draws_per_point :: "ShapeType \<Rightarrow> nat" where
  "draws_per_point shape =
     (case shape of HEART \<Rightarrow> 3 | STAR \<Rightarrow> 4 | SPHERE \<Rightarrow> 3 | FLOWER \<Rightarrow> 3 | TREE \<Rightarrow> 2)"

section \<open>Gesture interpreter (predictWebcam in src/App.tsx)\<close>

text \<open>
  A landmark of the detector has the fields \<^verbatim>\<open>x\<close> and \<^verbatim>\<open>y\<close> that the source reads.  The
  detector's result is \<open>None\<close> for \<^verbatim>\<open>null\<close>, otherwise the array \<^verbatim>\<open>results.landmarks\<close> of
  hands, each an array of landmarks.  Reading an array past its end gives \<^verbatim>\<open>undefined\<close>
  (\<open>None\<close>), and reading a field of \<^verbatim>\<open>undefined\<close> throws a \<^verbatim>\<open>TypeError\<close>.
\<close>

datatype landmark = Landmark (x_coord: real) (y_coord: real)

datatype error = TypeError

record GestureState =
  isOpen :: bool
  openness :: real
  rotationX :: real
  pinchDistance :: real
  isPinching :: bool
  handDetected :: bool

definition initialGesture :: GestureState where
  "initialGesture = \<lparr>isOpen = False, openness = 0, rotationX = 0.5, pinchDistance = 0,
     isPinching = False, handDetected = False\<rparr>"

definition at_index :: "'a list \<Rightarrow> nat \<Rightarrow> 'a option" where
  "at_index xs i = (if i < length xs then Some (xs ! i) else None)"

fun x_prop :: "landmark option \<Rightarrow> error + real" where
  "x_prop None = Inl TypeError"
| "x_prop (Some l) = Inr (x_coord l)"

fun y_prop :: "landmark option \<Rightarrow> error + real" where
  "y_prop None = Inl TypeError"
| "y_prop (Some l) = Inr (y_coord l)"

text \<open>
  The \<^verbatim>\<open>tips.forEach\<close> accumulation of \<^verbatim>\<open>avgDist\<close>; the operands are read in the order
  \<^verbatim>\<open>landmarks[idx].x\<close>, \<^verbatim>\<open>wrist.x\<close>, \<^verbatim>\<open>landmarks[idx].y\<close>, \<^verbatim>\<open>wrist.y\<close>.
\<close>

fun tips_forEach :: "landmark list \<Rightarrow> landmark option \<Rightarrow> nat list \<Rightarrow> real \<Rightarrow> error + real" where
  "tips_forEach landmarks wrist [] avgDist = Inr avgDist"
| "tips_forEach landmarks wrist (idx # tips) avgDist =
     (case x_prop (at_index landmarks idx) of Inl e \<Rightarrow> Inl e | Inr tx \<Rightarrow>
     (case x_prop wrist of Inl e \<Rightarrow> Inl e | Inr wx \<Rightarrow>
     (case y_prop (at_index landmarks idx) of Inl e \<Rightarrow> Inl e | Inr ty \<Rightarrow>
     (case y_prop wrist of Inl e \<Rightarrow> Inl e | Inr wy \<Rightarrow>
        (let dx = tx - wx; dy = ty - wy
         in tips_forEach landmarks wrist tips (avgDist + sqrt (dx * dx + dy * dy)))))))"

text \<open>The branch taken when a hand is present, up to the new value of the gesture ref.\<close>

definition interpretLandmarks :: "landmark list \<Rightarrow> error + GestureState" where
  "interpretLandmarks landmarks =
     (let wrist = at_index landmarks 0;
          tips = [4, 8, 12, 16, 20]
      in case tips_forEach landmarks wrist tips 0 of Inl e \<Rightarrow> Inl e | Inr distSum \<Rightarrow>
        (let avgDist = distSum / 5;
             opennessRaw = (avgDist - 0.2) / (0.4 - 0.2);
             openness' = min (max opennessRaw 0) 1
         in case x_prop (at_index landmarks 9) of Inl e \<Rightarrow> Inl e | Inr knuckle_x \<Rightarrow>
           (let rotationX' = 1.0 - knuckle_x;
                thumbTip = at_index landmarks 4;
                indexTip = at_index landmarks 8
            in case x_prop thumbTip of Inl e \<Rightarrow> Inl e | Inr thumb_x \<Rightarrow>
              (case x_prop indexTip of Inl e \<Rightarrow> Inl e | Inr index_x \<Rightarrow>
              (case y_prop thumbTip of Inl e \<Rightarrow> Inl e | Inr thumb_y \<Rightarrow>
              (case y_prop indexTip of Inl e \<Rightarrow> Inl e | Inr index_y \<Rightarrow>
                 (let pinchDist = sqrt ((thumb_x - index_x)\<^sup>2 + (thumb_y - index_y)\<^sup>2);
                      isPinching' = (pinchDist < 0.05)
                  in Inr \<lparr>isOpen = (openness' > 0.6), openness = openness',
                          rotationX = rotationX', pinchDistance = pinchDist,
                          isPinching = isPinching', handDetected = True\<rparr>)))))))"

text \<open>
  One call of \<^verbatim>\<open>predictWebcam\<close> with a video element present: the detector's result and
  the current value of the gesture ref give the new value, or the exception thrown before
  the ref is written.  The debug string for the sidebar is not modelled.
\<close>

definition predictWebcam :: "landmark list list option \<Rightarrow> GestureState \<Rightarrow> error + GestureState" where
  "predictWebcam results g =
     (let noHand = Inr (g\<lparr>handDetected := False,
                          openness := max 0 (binary64 (openness g - binary64 0.05))\<rparr>)
      in case results of
           None \<Rightarrow> noHand
         | Some hands \<Rightarrow>
             (case hands of
                [] \<Rightarrow> noHand
              | landmarks # _ \<Rightarrow> interpretLandmarks landmarks))"

text \<open>
  Successive frames: \<^verbatim>\<open>requestAnimationFrame(predictWebcam)\<close> is the last statement of
  the callback, so an exception ends the chain of calls.
\<close>

fun predictWebcam_frames :: "landmark list list option list \<Rightarrow> GestureState \<Rightarrow> error + GestureState" where
  "predictWebcam_frames [] g = Inr g"
| "predictWebcam_frames (results # frames) g =
     (case predictWebcam results g of Inl e \<Rightarrow> Inl e | Inr g' \<Rightarrow> predictWebcam_frames frames g')"

text \<open>
  The openness that the no-hand branch stores, as a function of the openness it reads:
  \<^verbatim>\<open>Math.max(0, openness - 0.05)\<close> in double precision.
\<close>

definition decay :: "real \<Rightarrow> real" where
  "decay v = max 0 (binary64 (v - binary64 0.05))"

text \<open>A hand of 21 landmarks, all at \<open>(1/2, 1/2)\<close> but the index tip, which is \<open>d\<close> to the right.\<close>

definition pinch_hand :: "real \<Rightarrow> landmark list" where
  "pinch_hand d = (replicate 21 (Landmark (1 / 2) (1 / 2)))[8 := Landmark (1 / 2 + d) (1 / 2)]"

section \<open>Particle store and animator (src/components/ParticleSystem.tsx)\<close>

text \<open>
  The object behind \<^verbatim>\<open>pointsRef.current\<close>, as far as the frame callback touches it: the
  array of the geometry's position attribute and the rotation about the vertical axis.
\<close>

record points_obj =
  position_array :: "real list"
  rotation_y :: real

text \<open>
  The four buffers that \<^verbatim>\<open>useMemo\<close> allocates once, with lengths \<open>3 * PARTICLE_COUNT\<close>
  (positions, targets, colours) and \<open>PARTICLE_COUNT\<close> (sizes), and the ref to the mounted
  points object (\<open>None\<close> while it is \<^verbatim>\<open>null\<close>).  No code resizes a buffer.  The source
  reads the position and target buffers at the indices below \<open>3 * PARTICLE_COUNT\<close> only;
  the theorems assume the allocated lengths where they speak of the values read.
\<close>

record scene =
  currentPositions :: "real list"
  targetPositions :: "real list"
  colors :: "real list"
  sizes :: "real list"
  pointsRef :: "points_obj option"

text \<open>
  The effect that runs when the shape changes.  It copies one \<^verbatim>\<open>Float32Array\<close> into
  another element by element, which rounds nothing.
\<close>

definition retarget :: "ShapeType \<Rightarrow> rng \<Rightarrow> scene \<Rightarrow> scene" where
  "retarget shape rs sc =
     (let newPos = generate shape PARTICLE_COUNT rs
      in sc\<lparr>targetPositions :=
              for_loop 0 (PARTICLE_COUNT * 3) (\<lambda>i target. target[i := newPos ! i])
                (targetPositions sc)\<rparr>)"

text \<open>
  The value of \<^verbatim>\<open>cur + (t - cur) * lerpSpeed\<close> that the interpolation statement
  \<^verbatim>\<open>cur += (t - cur) * lerpSpeed\<close>, written three times in the frame callback, stores.
\<close>

definition lerp :: "real \<Rightarrow> real \<Rightarrow> real \<Rightarrow> real" where
  "lerp cur t lerpSpeed = cur + (t - cur) * lerpSpeed"

text \<open>
  The body of the particle loop of the frame callback.  The state is the number of
  \<^verbatim>\<open>Math.random()\<close> calls made so far in this frame and the position buffer.
\<close>

definition useFrame_body ::
  "real list \<Rightarrow> real \<Rightarrow> real \<Rightarrow> real \<Rightarrow> rng \<Rightarrow> nat \<Rightarrow> nat \<times> real list \<Rightarrow> nat \<times> real list" where
  "useFrame_body target spreadFactor lerpSpeed time rs i st =
     (case st of (k, cur) \<Rightarrow>
        let ix = i * 3;
            iy = i * 3 + 1;
            iz = i * 3 + 2;
            tx = target ! ix;
            ty = target ! iy;
            tz = target ! iz;
            spread = (spreadFactor > 0.1);
            tx' = (if spread then tx + (tx * spreadFactor + (rs k - 0.5) * spreadFactor) else tx);
            ty' = (if spread then ty + (ty * spreadFactor + (rs (k + 1) - 0.5) * spreadFactor) else ty);
            tz' = (if spread then tz + (tz * spreadFactor + (rs (k + 2) - 0.5) * spreadFactor) else tz);
            k' = (if spread then k + 3 else k);
            cur1 = cur[ix := binary32 (lerp (cur ! ix) tx' lerpSpeed)];
            cur2 = cur1[iy := binary32 (lerp (cur1 ! iy) ty' lerpSpeed)];
            cur3 = cur2[iz := binary32 (lerp (cur2 ! iz) tz' lerpSpeed)];
            cur4 = cur3[iy := binary32 (cur3 ! iy + sin (time + real ix) * 0.01)]
        in (k', cur4))"

text \<open>
  The frame callback: \<open>time\<close> is \<^verbatim>\<open>state.clock.elapsedTime\<close>, \<open>delta\<close> the seconds since
  the last frame, \<open>rs\<close> the random numbers drawn during this frame.
\<close>

definition useFrame :: "real \<Rightarrow> real \<Rightarrow> GestureState \<Rightarrow> rng \<Rightarrow> scene \<Rightarrow> scene" where
  "useFrame time delta gesture rs sc =
     (case pointsRef sc of
        None \<Rightarrow> sc
      | Some pts \<Rightarrow>
          let spreadFactor = openness gesture * 3.0;
              lerpSpeed = 3.0 * delta;
              cur = snd (for_loop 0 PARTICLE_COUNT
                      (useFrame_body (targetPositions sc) spreadFactor lerpSpeed time rs)
                      (0, currentPositions sc));
              rot = (if handDetected gesture
                     then (let rotationForce = (rotationX gesture - 0.5) * 2
                           in rotation_y pts + rotationForce * delta * 2)
                     else rotation_y pts + 0.1 * delta)
          in sc\<lparr>currentPositions := cur,
                pointsRef := Some (pts\<lparr>position_array := cur, rotation_y := rot\<rparr>)\<rparr>)"

text \<open>
  The target a coordinate is pulled to in one frame: the base target \<open>t\<close>, displaced when
  the spread factor exceeds 0.1, with \<open>u\<close> the random number drawn for the coordinate.
\<close>

definition adjustedTarget :: "real \<Rightarrow> real \<Rightarrow> real \<Rightarrow> real" where
  "adjustedTarget spreadFactor t u =
     (if spreadFactor > 0.1 then t + (t * spreadFactor + (u - 0.5) * spreadFactor) else t)"

text \<open>
  A mounted scene for concrete runs: every particle at the origin, every target
  coordinate 1.
\<close>

definition still_scene :: scene where
  "still_scene =
     \<lparr>currentPositions = replicate (PARTICLE_COUNT * 3) 0,
      targetPositions = replicate (PARTICLE_COUNT * 3) 1,
      colors = replicate (PARTICLE_COUNT * 3) 1,
      sizes = replicate PARTICLE_COUNT (binary32 0.15),
      pointsRef = Some \<lparr>position_array = replicate (PARTICLE_COUNT * 3) 0, rotation_y = 0\<rparr>\<rparr>"


section \<open>Facts about rounding\<close>

lemma round_ties_even_of_int [simp]: "round_ties_even (of_int n) = n"
  by (simp add: round_ties_even_def)

lemma round_ties_even_cases:
  "round_ties_even x = \<lfloor>x\<rfloor> \<or> round_ties_even x = \<lfloor>x\<rfloor> + 1"
  by (simp add: round_ties_even_def Let_def)

lemma round_ties_even_mono:
  assumes "x \<le> y"
  shows "round_ties_even x \<le> round_ties_even y"
proof (cases "\<lfloor>x\<rfloor> = \<lfloor>y\<rfloor>")
  case True
  with assms show ?thesis
    by (auto simp: round_ties_even_def Let_def)
next
  case False
  with assms have "\<lfloor>x\<rfloor> + 1 \<le> \<lfloor>y\<rfloor>"
    using floor_mono [OF assms] by linarith
  moreover have "round_ties_even x \<le> \<lfloor>x\<rfloor> + 1" "\<lfloor>y\<rfloor> \<le> round_ties_even y"
    using round_ties_even_cases [of x] round_ties_even_cases [of y] by auto
  ultimately show ?thesis
    by linarith
qed

lemma round_ties_even_minus: "round_ties_even (- x) = - round_ties_even x"
proof (cases "x = of_int \<lfloor>x\<rfloor>")
  case True
  then obtain n where "x = of_int n" ..
  then show ?thesis
    by (simp flip: of_int_minus)
next
  case False
  then have fl: "\<lfloor>- x\<rfloor> = - \<lfloor>x\<rfloor> - 1"
    by (simp add: floor_minus ceiling_altdef)
  have "even (- \<lfloor>x\<rfloor> - 1) \<longleftrightarrow> odd \<lfloor>x\<rfloor>"
    by simp
  then show ?thesis
    unfolding round_ties_even_def Let_def fl by (auto simp: algebra_simps)
qed

lemma round_ties_even_error: "\<bar>of_int (round_ties_even x) - x\<bar> \<le> 1 / 2"
proof -
  have "of_int \<lfloor>x\<rfloor> \<le> x" "x < of_int \<lfloor>x\<rfloor> + 1"
    by linarith+
  then show ?thesis
    by (auto simp: round_ties_even_def Let_def abs_le_iff)
qed

lemma two_powr_int: "0 \<le> k \<Longrightarrow> (2::real) powr of_int k = of_int (2 ^ nat k)"
  by (simp add: powr_real_of_int)

lemma round_ties_even_0 [simp]: "round_ties_even 0 = 0"
  using round_ties_even_of_int [of 0] by simp

lemma round_ties_even_power2 [simp]: "round_ties_even (2 ^ k) = 2 ^ k"
  using round_ties_even_of_int [of "2 ^ k"] by simp

lemma last_place_minus [simp]: "last_place p emin (- x) = last_place p emin x"
  by (simp add: last_place_def)

lemma last_place_ge: "emin \<le> last_place p emin x"
  by (simp add: last_place_def)

lemma round_to_minus: "round_to p emin (- x) = - round_to p emin x"
  by (simp add: round_to_def round_ties_even_minus)

lemma round_to_nonneg:
  assumes "0 \<le> x"
  shows "0 \<le> round_to p emin x"
proof -
  have "round_ties_even 0 \<le> round_ties_even (x / 2 powr of_int (last_place p emin x))"
    using assms by (intro round_ties_even_mono) simp
  then show ?thesis
    by (simp add: round_to_def zero_le_mult_iff)
qed

lemma round_to_nonpos: "x \<le> 0 \<Longrightarrow> round_to p emin x \<le> 0"
  using round_to_nonneg [of "- x" p emin] by (simp add: round_to_minus)

lemma last_place_upper:
  assumes "0 < x"
  shows "x < 2 powr of_int (last_place p emin x + int p)"
proof -
  have "\<lfloor>log 2 x\<rfloor> \<le> last_place p emin x + int p - 1"
    using assms by (simp add: last_place_def)
  then have "log 2 x < of_int (last_place p emin x + int p)"
    by linarith
  then show ?thesis
    using assms by (simp add: less_powr_iff)
qed

lemma last_place_lower:
  assumes "0 < x" and "emin < last_place p emin x"
  shows "2 powr of_int (last_place p emin x + int p - 1) \<le> x"
proof -
  have "last_place p emin x = \<lfloor>log 2 x\<rfloor> - (int p - 1)"
    using assms by (simp add: last_place_def max_def split: if_splits)
  then have "of_int (last_place p emin x + int p - 1) \<le> log 2 x"
    by simp
  then show ?thesis
    using assms(1) by (simp add: powr_le_iff)
qed

lemma last_place_mono:
  assumes "0 < x" and "x \<le> y"
  shows "last_place p emin x \<le> last_place p emin y"
proof -
  have "log 2 x \<le> log 2 y"
    using assms by simp
  then have "\<lfloor>log 2 x\<rfloor> \<le> \<lfloor>log 2 y\<rfloor>"
    by (rule floor_mono)
  then show ?thesis
    using assms by (simp add: last_place_def)
qed

lemma round_to_mono_pos:
  assumes "0 < p" and "0 < x" and "x \<le> y"
  shows "round_to p emin x \<le> round_to p emin y"
proof -
  let ?ex = "last_place p emin x" and ?ey = "last_place p emin y"
  have y: "0 < y"
    using assms by simp
  have le: "?ex \<le> ?ey"
    using assms by (intro last_place_mono)
  show ?thesis
  proof (cases "?ex = ?ey")
    case True
    have "x / 2 powr of_int ?ey \<le> y / 2 powr of_int ?ey"
      using assms(3) by (simp add: divide_right_mono)
    then have "round_ties_even (x / 2 powr of_int ?ey) \<le> round_ties_even (y / 2 powr of_int ?ey)"
      by (rule round_ties_even_mono)
    then show ?thesis
      using assms(2) y True by (simp add: round_to_def)
  next
    case False
    with le have lt: "?ex < ?ey"
      by simp
    define B :: real where "B = 2 powr of_int (?ey + int p - 1)"
    have "emin < ?ey"
      using lt last_place_ge [of emin p x] by linarith
    then have By: "B \<le> y"
      unfolding B_def by (intro last_place_lower y)
    have "x < 2 powr of_int (?ex + int p)"
      by (rule last_place_upper [OF assms(2)])
    also have "\<dots> \<le> B"
      unfolding B_def using lt by simp
    finally have xB: "x \<le> B"
      by simp
    have "B / 2 powr of_int ?ex = 2 powr of_int (?ey + int p - 1 - ?ex)"
      unfolding B_def by (simp add: powr_diff)
    also have "\<dots> = of_int (2 ^ nat (?ey + int p - 1 - ?ex))"
      using lt by (intro two_powr_int) simp
    finally have Bx: "B / 2 powr of_int ?ex = of_int (2 ^ nat (?ey + int p - 1 - ?ex))" .
    have "x / 2 powr of_int ?ex \<le> B / 2 powr of_int ?ex"
      using xB by (simp add: divide_right_mono)
    then have "round_ties_even (x / 2 powr of_int ?ex) \<le> round_ties_even (B / 2 powr of_int ?ex)"
      by (rule round_ties_even_mono)
    then have "of_int (round_ties_even (x / 2 powr of_int ?ex)) \<le> B / 2 powr of_int ?ex"
      unfolding Bx by simp
    then have low: "round_to p emin x \<le> B"
      using assms(2) by (simp add: round_to_def pos_le_divide_eq)
    have "of_int (?ey + int p - 1) - of_int ?ey = (of_int (int p - 1) :: real)"
      by simp
    then have "B / 2 powr of_int ?ey = 2 powr of_int (int p - 1)"
      unfolding B_def by (simp only: flip: powr_diff)
    also have "\<dots> = of_int (2 ^ nat (int p - 1))"
      using assms(1) by (intro two_powr_int) simp
    finally have By': "B / 2 powr of_int ?ey = of_int (2 ^ nat (int p - 1))" .
    have "B / 2 powr of_int ?ey \<le> y / 2 powr of_int ?ey"
      using By by (simp add: divide_right_mono)
    then have "round_ties_even (B / 2 powr of_int ?ey) \<le> round_ties_even (y / 2 powr of_int ?ey)"
      by (rule round_ties_even_mono)
    then have "B / 2 powr of_int ?ey \<le> of_int (round_ties_even (y / 2 powr of_int ?ey))"
      unfolding By' by simp
    then have "B \<le> round_to p emin y"
      using y by (simp add: round_to_def pos_divide_le_eq)
    with low show ?thesis
      by simp
  qed
qed

lemma round_to_mono:
  assumes "0 < p" and "x \<le> y"
  shows "round_to p emin x \<le> round_to p emin y"
proof -
  consider "0 < x" | "x \<le> 0" "0 \<le> y" | "y < 0"
    by linarith
  then show ?thesis
  proof cases
    case 1
    with assms show ?thesis
      by (intro round_to_mono_pos)
  next
    case 2
    then show ?thesis
      using round_to_nonpos [of x p emin] round_to_nonneg [of y p emin] by simp
  next
    case 3
    then have "0 < - y" "- y \<le> - x"
      using assms(2) by simp_all
    from round_to_mono_pos [OF assms(1) this] show ?thesis
      by (simp add: round_to_minus)
  qed
qed

lemma round_to_representable_pos:
  assumes "0 < p" and "0 < m" and "m < 2 ^ p" and "emin \<le> e"
  shows "round_to p emin (of_int m * 2 powr of_int e) = of_int m * 2 powr of_int e"
proof -
  define v :: real where "v = of_int m * 2 powr of_int e"
  let ?L = "last_place p emin v"
  have v: "0 < v"
    using assms(2) by (simp add: v_def)
  have "(of_int m :: real) < of_int (2 ^ p)"
    using assms(3) by (simp only: of_int_less_iff)
  then have "(of_int m :: real) < 2 powr of_int (int p)"
    by (simp add: powr_realpow)
  then have "v < 2 powr of_int (int p) * 2 powr of_int e"
    unfolding v_def by (simp add: mult_strict_right_mono)
  then have "v < 2 powr of_int (e + int p)"
    by (simp add: powr_add mult.commute)
  then have "log 2 v < of_int (e + int p)"
    using v by (simp add: less_powr_iff)
  then have "\<lfloor>log 2 v\<rfloor> < e + int p"
    by (simp add: floor_less_iff)
  then have L: "?L \<le> e"
    using assms(4) v by (simp add: last_place_def)
  have k: "(2::real) powr of_int (e - ?L) = of_int (2 ^ nat (e - ?L))"
    using L by (intro two_powr_int) simp
  have quot: "(2::real) powr of_int e / 2 powr of_int ?L = 2 powr of_int (e - ?L)"
    by (simp add: powr_diff)
  have "v / 2 powr of_int ?L = of_int m * (2 powr of_int e / 2 powr of_int ?L)"
    by (simp add: v_def)
  also have "\<dots> = of_int (m * 2 ^ nat (e - ?L))"
    by (simp only: quot k of_int_mult)
  finally have "round_ties_even (v / 2 powr of_int ?L) = m * 2 ^ nat (e - ?L)"
    by (simp only: round_ties_even_of_int)
  then have "round_to p emin v = of_int (m * 2 ^ nat (e - ?L)) * 2 powr of_int ?L"
    using v by (simp add: round_to_def)
  also have "\<dots> = of_int m * (2 powr of_int e / 2 powr of_int ?L * 2 powr of_int ?L)"
    by (simp only: quot k of_int_mult mult.assoc)
  also have "\<dots> = of_int m * 2 powr of_int e"
    by simp
  finally show ?thesis
    by (simp add: v_def)
qed

lemma round_to_representable:
  assumes "0 < p" and "\<bar>m\<bar> < 2 ^ p" and "emin \<le> e"
  shows "round_to p emin (of_int m * 2 powr of_int e) = of_int m * 2 powr of_int e"
proof -
  consider "0 < m" | "m = 0" | "m < 0"
    by linarith
  then show ?thesis
  proof cases
    case 1
    with assms show ?thesis
      by (intro round_to_representable_pos) simp_all
  next
    case 2
    then show ?thesis
      by (simp add: round_to_def)
  next
    case 3
    with assms have "round_to p emin (of_int (- m) * 2 powr of_int e) = of_int (- m) * 2 powr of_int e"
      by (intro round_to_representable_pos) simp_all
    then show ?thesis
      using round_to_minus [of p emin "of_int m * 2 powr of_int e"] by simp
  qed
qed

lemma round_to_idem_pos:
  assumes "0 < p" and "0 < x"
  shows "round_to p emin (round_to p emin x) = round_to p emin x"
proof -
  let ?L = "last_place p emin x"
  define m where "m = round_ties_even (x / 2 powr of_int ?L)"
  have r: "round_to p emin x = of_int m * 2 powr of_int ?L"
    using assms(2) by (simp add: round_to_def m_def)
  have "x < 2 powr of_int (?L + int p)"
    by (rule last_place_upper [OF assms(2)])
  then have "x / 2 powr of_int ?L < 2 powr of_int (int p)"
    by (simp add: powr_add pos_divide_less_eq mult.commute)
  then have "x / 2 powr of_int ?L \<le> 2 ^ p"
    by (simp add: powr_realpow)
  then have "round_ties_even (x / 2 powr of_int ?L) \<le> round_ties_even (2 ^ p)"
    by (rule round_ties_even_mono)
  then have upper: "m \<le> 2 ^ p"
    by (simp add: m_def)
  have "round_ties_even 0 \<le> round_ties_even (x / 2 powr of_int ?L)"
    using assms(2) by (intro round_ties_even_mono) simp
  then have lower: "0 \<le> m"
    by (simp add: m_def)
  show ?thesis
  proof (cases "m = 2 ^ p")
    case False
    with upper lower have "\<bar>m\<bar> < 2 ^ p"
      by simp
    from round_to_representable [OF assms(1) this last_place_ge] show ?thesis
      unfolding r .
  next
    case True
    obtain q where p: "p = Suc q"
      using assms(1) by (cases p) simp_all
    have "of_int m * 2 powr of_int ?L = (of_int (2 ^ q) * (2 powr of_int 1 * 2 powr of_int ?L) :: real)"
      by (simp add: True p)
    also have "2 powr of_int 1 * 2 powr of_int ?L = (2::real) powr of_int (?L + 1)"
      by (simp only: of_int_add flip: powr_add) (simp add: add.commute)
    finally have eq: "of_int m * 2 powr of_int ?L = (of_int (2 ^ q) * 2 powr of_int (?L + 1) :: real)" .
    have "\<bar>2 ^ q :: int\<bar> < 2 ^ p" "emin \<le> ?L + 1"
      using last_place_ge [of emin p x] by (simp_all add: p)
    from round_to_representable [OF assms(1) this] show ?thesis
      unfolding r eq .
  qed
qed

lemma round_to_idem:
  assumes "0 < p"
  shows "round_to p emin (round_to p emin x) = round_to p emin x"
proof -
  consider "0 < x" | "x = 0" | "x < 0"
    by linarith
  then show ?thesis
  proof cases
    case 1
    with assms show ?thesis
      by (intro round_to_idem_pos)
  next
    case 2
    then show ?thesis
      by (simp add: round_to_def)
  next
    case 3
    then have "0 < - x"
      by simp
    from round_to_idem_pos [OF assms this, of emin] show ?thesis
      by (simp add: round_to_minus)
  qed
qed

lemma round_to_error:
  "\<bar>round_to p emin x - x\<bar> \<le> 2 powr of_int (last_place p emin x) / 2"
proof (cases "x = 0")
  case True
  then show ?thesis
    by (simp add: round_to_def)
next
  case False
  let ?s = "(2::real) powr of_int (last_place p emin x)"
  have s: "0 < ?s"
    by simp
  have "\<bar>of_int (round_ties_even (x / ?s)) - x / ?s\<bar> * ?s \<le> 1 / 2 * ?s"
    using round_ties_even_error [of "x / ?s"] by (intro mult_right_mono) simp_all
  moreover have "\<bar>of_int (round_ties_even (x / ?s)) - x / ?s\<bar> * ?s
      = \<bar>of_int (round_ties_even (x / ?s)) * ?s - x\<bar>"
  proof -
    have "\<bar>of_int (round_ties_even (x / ?s)) - x / ?s\<bar> * ?s
        = \<bar>(of_int (round_ties_even (x / ?s)) - x / ?s) * ?s\<bar>"
      by (simp add: abs_mult)
    also have "(of_int (round_ties_even (x / ?s)) - x / ?s) * ?s
        = of_int (round_ties_even (x / ?s)) * ?s - x"
      by (simp add: left_diff_distrib)
    finally show ?thesis .
  qed
  ultimately show ?thesis
    using False by (simp add: round_to_def)
qed

lemma last_place_eq:
  assumes "2 powr of_int k \<le> \<bar>x\<bar>" and "\<bar>x\<bar> < 2 powr of_int (k + 1)"
  shows "last_place p emin x = max (k - (int p - 1)) emin"
proof -
  have "0 < (2::real) powr of_int k"
    by simp
  with assms(1) have "0 < \<bar>x\<bar>"
    by linarith
  then have "\<lfloor>log 2 \<bar>x\<bar>\<rfloor> = k"
    using assms by (simp add: floor_log_eq_powr_iff)
  then show ?thesis
    by (simp add: last_place_def)
qed

lemma round_ties_even_eq:
  assumes "\<bar>x - of_int n\<bar> < 1 / 2"
  shows "round_ties_even x = n"
proof (cases "of_int n \<le> x")
  case True
  with assms have "\<lfloor>x\<rfloor> = n"
    by (intro floor_unique) (simp_all add: abs_less_iff)
  with assms True show ?thesis
    by (simp add: round_ties_even_def abs_less_iff)
next
  case False
  with assms have "\<lfloor>x\<rfloor> = n - 1"
    by (intro floor_unique) (simp_all add: abs_less_iff)
  with assms False show ?thesis
    by (simp add: round_ties_even_def abs_less_iff)
qed

lemma round_to_eval:
  assumes "2 powr of_int k \<le> \<bar>x\<bar>" and "\<bar>x\<bar> < 2 powr of_int (k + 1)"
    and "e = max (k - (int p - 1)) emin"
    and "\<bar>x / 2 powr of_int e - of_int n\<bar> < 1 / 2"
  shows "round_to p emin x = of_int n * 2 powr of_int e"
proof -
  have "0 < (2::real) powr of_int k"
    by simp
  with assms(1) have "x \<noteq> 0"
    by auto
  moreover have "last_place p emin x = e"
    using last_place_eq [OF assms(1,2)] assms(3) by simp
  ultimately show ?thesis
    using round_ties_even_eq [OF assms(4)] by (simp add: round_to_def)
qed

lemma round_to_eval_tie:
  assumes "2 powr of_int k \<le> \<bar>x\<bar>" and "\<bar>x\<bar> < 2 powr of_int (k + 1)"
    and "e = max (k - (int p - 1)) emin"
  shows "round_to p emin x = of_int (round_ties_even (x / 2 powr of_int e)) * 2 powr of_int e"
proof -
  have "0 < (2::real) powr of_int k"
    by simp
  with assms(1) have "x \<noteq> 0"
    by auto
  moreover have "last_place p emin x = e"
    using last_place_eq [OF assms(1,2)] assms(3) by simp
  ultimately show ?thesis
    by (simp add: round_to_def)
qed


lemma binary64_mono: "x \<le> y \<Longrightarrow> binary64 x \<le> binary64 y"
  by (simp add: binary64_def round_to_mono)

lemma binary32_idem [simp]: "binary32 (binary32 x) = binary32 x"
  by (simp add: binary32_def round_to_idem)

lemma binary64_idem [simp]: "binary64 (binary64 x) = binary64 x"
  by (simp add: binary64_def round_to_idem)


lemma binary64_0 [simp]: "binary64 0 = 0"
  by (simp add: binary64_def round_to_def)

lemma binary64_sign: "0 \<le> x \<Longrightarrow> 0 \<le> binary64 x" "x \<le> 0 \<Longrightarrow> binary64 x \<le> 0"
  by (simp_all add: binary64_def round_to_nonneg round_to_nonpos)

lemma binary32_dyadic:
  assumes "\<bar>m\<bar> < 2 ^ 24" and "- 149 \<le> e"
  shows "binary32 (of_int m * 2 powr of_int e) = of_int m * 2 powr of_int e"
  unfolding binary32_def using assms by (intro round_to_representable) simp_all

lemma binary32_small [simp]:
  "binary32 1 = 1" "binary32 4 = 4" "binary32 (1 / 2) = 1 / 2" "binary32 (1 / 8) = 1 / 8"
  "binary32 (- (1 / 4)) = - (1 / 4)"
  using binary32_dyadic [of 1 0] binary32_dyadic [of 1 2] binary32_dyadic [of 1 "- 1"]
    binary32_dyadic [of 1 "- 3"] binary32_dyadic [of "- 1" "- 2"]
  by (simp_all add: powr_neg_numeral)

section \<open>Facts about loops and the generators\<close>

lemma for_loop_invariant:
  assumes "P i s"
    and "\<And>j t. i \<le> j \<Longrightarrow> j < n \<Longrightarrow> P j t \<Longrightarrow> P (Suc j) (body j t)"
    and "i \<le> n"
  shows "P n (for_loop i n body s)"
  using assms
proof (induction i n body s rule: for_loop.induct)
  case (1 i n body s)
  show ?case
  proof (cases "i < n")
    case True
    have "P (Suc i) (body i s)"
      using "1.prems"(1,2) True by simp
    moreover have "\<And>j t. Suc i \<le> j \<Longrightarrow> j < n \<Longrightarrow> P j t \<Longrightarrow> P (Suc j) (body j t)"
      using "1.prems"(2) by simp
    ultimately have "P n (for_loop (Suc i) n body (body i s))"
      using "1.IH" True by simp
    then show ?thesis
      using True by (simp add: for_loop.simps [of i])
  next
    case False
    have "for_loop i n body s = s"
      using False by (subst for_loop.simps) simp
    with False "1.prems"(1,3) show ?thesis
      by simp
  qed
qed

lemma gen_loop:
  fixes body :: "nat \<Rightarrow> nat \<times> real list \<Rightarrow> nat \<times> real list" and n :: nat
  assumes body: "\<And>i k ps. body i (k, ps) =
      (k + c, ps[i * 3 := X k i, i * 3 + 1 := Y k i, i * 3 + 2 := Z k i])"
    and init: "length init = n * 3"
  defines "res \<equiv> snd (for_loop 0 n body (0, init))"
  shows "length res = n * 3"
    and "i < n \<Longrightarrow> res ! (i * 3) = X (c * i) i"
    and "i < n \<Longrightarrow> res ! (i * 3 + 1) = Y (c * i) i"
    and "i < n \<Longrightarrow> res ! (i * 3 + 2) = Z (c * i) i"
proof -
  define P where "P j st \<longleftrightarrow> fst st = c * j \<and> length (snd st) = n * 3 \<and>
      (\<forall>m<j. snd st ! (m * 3) = X (c * m) m \<and> snd st ! (m * 3 + 1) = Y (c * m) m
            \<and> snd st ! (m * 3 + 2) = Z (c * m) m)"
    for j :: nat and st :: "nat \<times> real list"
  have start: "P 0 (0, init)"
    by (simp add: P_def init)
  have step: "P (Suc j) (body j t)" if "j < n" and "P j t" for j t
  proof -
    obtain k ps where t: "t = (k, ps)"
      by (cases t)
    from that t have k: "k = c * j" and len: "length ps = n * 3"
      and old: "\<And>m. m < j \<Longrightarrow> ps ! (m * 3) = X (c * m) m \<and> ps ! (m * 3 + 1) = Y (c * m) m
            \<and> ps ! (m * 3 + 2) = Z (c * m) m"
      by (simp_all add: P_def)
    have "snd (body j t) ! (m * 3) = X (c * m) m \<and> snd (body j t) ! (m * 3 + 1) = Y (c * m) m
            \<and> snd (body j t) ! (m * 3 + 2) = Z (c * m) m" if "m < Suc j" for m
    proof (cases "m = j")
      case True
      with \<open>j < n\<close> len show ?thesis
        by (simp add: t body k)
    next
      case False
      with that have "m < j" by simp
      then show ?thesis
        using old [of m] by (simp add: t body)
    qed
    then show ?thesis
      by (simp add: P_def t body k len)
  qed
  have "P n (for_loop 0 n body (0, init))"
    by (rule for_loop_invariant [where P = P, OF start]) (simp_all add: step)
  then show "length res = n * 3"
    and "i < n \<Longrightarrow> res ! (i * 3) = X (c * i) i"
    and "i < n \<Longrightarrow> res ! (i * 3 + 1) = Y (c * i) i"
    and "i < n \<Longrightarrow> res ! (i * 3 + 2) = Z (c * i) i"
    by (simp_all add: P_def res_def)
qed

lemma index_by_three:
  fixes j :: nat
  obtains "j = j div 3 * 3" | "j = j div 3 * 3 + 1" | "j = j div 3 * 3 + 2"
proof -
  have "j mod 3 = 0 \<or> j mod 3 = 1 \<or> j mod 3 = 2"
    by arith
  then have "j = j div 3 * 3 \<or> j = j div 3 * 3 + 1 \<or> j = j div 3 * 3 + 2"
    by (metis div_mult_mod_eq add.right_neutral)
  with that show ?thesis
    by blast
qed

lemma gen_loop_written:
  fixes body :: "nat \<Rightarrow> nat \<times> real list \<Rightarrow> nat \<times> real list" and n :: nat
  assumes body: "\<And>i k ps. body i (k, ps) =
      (k + c, ps[i * 3 := X k i, i * 3 + 1 := Y k i, i * 3 + 2 := Z k i])"
    and j: "j < n * 3" and init: "length init = n * 3" and other: "length other = n * 3"
  shows "snd (for_loop 0 n body (0, init)) ! j =
         snd (body (j div 3) (c * (j div 3), other)) ! j"
proof -
  let ?i = "j div 3"
  have i: "?i < n"
    using j by (simp add: less_mult_imp_div_less)
  note loop = gen_loop(2-4) [of body c X Y Z init n ?i, OF body init i]
  show ?thesis
  proof (cases j rule: index_by_three)
    case 1
    have "snd (body ?i (c * ?i, other)) ! (?i * 3) = X (c * ?i) ?i"
      using i other by (simp add: body)
    with loop(1) 1 show ?thesis
      by simp
  next
    case 2
    have "snd (body ?i (c * ?i, other)) ! (?i * 3 + 1) = Y (c * ?i) ?i"
      using i other by (simp add: body)
    with loop(2) 2 show ?thesis
      by simp
  next
    case 3
    have "snd (body ?i (c * ?i, other)) ! (?i * 3 + 2) = Z (c * ?i) ?i"
      using i other by (simp add: body)
    with loop(3) 3 show ?thesis
      by simp
  qed
qed

lemma gen_loop_overwrites:
  fixes body :: "nat \<Rightarrow> nat \<times> real list \<Rightarrow> nat \<times> real list" and n :: nat
  assumes body: "\<And>i k ps. body i (k, ps) =
      (k + c, ps[i * 3 := X k i, i * 3 + 1 := Y k i, i * 3 + 2 := Z k i])"
    and init: "length init = n * 3" and other: "length other = n * 3"
  shows "snd (for_loop 0 n body (0, init)) = snd (for_loop 0 n body (0, other))"
proof (rule nth_equalityI)
  show "length (snd (for_loop 0 n body (0, init))) = length (snd (for_loop 0 n body (0, other)))"
    using gen_loop(1) [of body c X Y Z _ n, OF body] init other by simp
next
  fix j
  assume "j < length (snd (for_loop 0 n body (0, init)))"
  then have j: "j < n * 3"
    using gen_loop(1) [of body c X Y Z init n, OF body init] by simp
  show "snd (for_loop 0 n body (0, init)) ! j = snd (for_loop 0 n body (0, other)) ! j"
    using gen_loop_written [of body c X Y Z j n init init, OF body j init init]
      gen_loop_written [of body c X Y Z j n other init, OF body j other init]
    by simp
qed

lemma generateTreePoints_body_eq:
  "generateTreePoints_body count rs i (k, ps) =
     (k + 2, ps[i * 3 := binary32 (cos (real i / real count * pi * 20) * (real i / real count * 3.5)
                          + (rs k - 0.5) * 0.5),
                i * 3 + 1 := binary32 (- 3 + (1 - real i / real count) * 7),
                i * 3 + 2 := binary32 (sin (real i / real count * pi * 20) * (real i / real count * 3.5)
                          + (rs (k + 1) - 0.5) * 0.5)])"
  by (simp add: generateTreePoints_body_def Let_def)

lemma generateHeartPoints_body_eq:
  "generateHeartPoints_body rs i (k, ps) =
     (k + 3, ps[i * 3 := binary32 (16 * (sin (rs k * pi * 2)) ^ 3 * 0.25 * (0.8 + rs (k + 1) * 0.2)),
                i * 3 + 1 := binary32 ((13 * cos (rs k * pi * 2) - 5 * cos (2 * (rs k * pi * 2))
                               - 2 * cos (3 * (rs k * pi * 2)) - cos (4 * (rs k * pi * 2)))
                               * 0.25 * (0.8 + rs (k + 1) * 0.2)),
                i * 3 + 2 := binary32 ((rs (k + 2) - 0.5) * 2)])"
  by (simp add: generateHeartPoints_body_def Let_def)

lemma generateSpherePoints_body_eq:
  "generateSpherePoints_body rs i (k, ps) =
     (k + 3, ps[i * 3 := binary32 ((4 + rs (k + 2)) * sin (arccos (2 * rs (k + 1) - 1))
                           * cos (rs k * pi * 2)),
                i * 3 + 1 := binary32 ((4 + rs (k + 2)) * sin (arccos (2 * rs (k + 1) - 1))
                           * sin (rs k * pi * 2)),
                i * 3 + 2 := binary32 ((4 + rs (k + 2)) * cos (arccos (2 * rs (k + 1) - 1)))])"
  by (simp add: generateSpherePoints_body_def randomOnSphere_def Let_def)

lemma generateStarPoints_body_eq:
  "generateStarPoints_body rs i (k, ps) =
     (k + 4, ps[i * 3 := binary32 ((3 + \<bar>sin (rs k * pi * 2 * 2.5)\<bar> * 2.5) * cos (rs k * pi * 2)
                           * rs (k + 1)),
                i * 3 + 1 := binary32 ((3 + \<bar>sin (rs k * pi * 2 * 2.5)\<bar> * 2.5) * sin (rs k * pi * 2)
                           * rs (k + 2)),
                i * 3 + 2 := binary32 ((rs (k + 3) - 0.5) * 1.5)])"
  by (simp add: generateStarPoints_body_def Let_def)

lemma generateFlowerPoints_body_eq:
  "generateFlowerPoints_body rs i (k, ps) =
     (k + 3, ps[i * 3 := binary32 (4 * cos (4 * (rs k * pi * 2)) * rs (k + 1) * cos (rs k * pi * 2)),
                i * 3 + 1 := binary32 (4 * cos (4 * (rs k * pi * 2)) * rs (k + 1) * sin (rs k * pi * 2)),
                i * 3 + 2 := binary32 (sin (4 * cos (4 * (rs k * pi * 2)) * rs (k + 1)) * 1.5
                              + (rs (k + 2) - 0.5))])"
  by (simp add: generateFlowerPoints_body_def Let_def)

lemma zeros_length: "length (replicate (n * 3) (0::real)) = n * 3"
  by simp

lemma generateTreePoints_loop:
  "length (generateTreePoints count rs) = count * 3"
  "i < count \<Longrightarrow> generateTreePoints count rs ! (i * 3) =
     binary32 (cos (real i / real count * pi * 20) * (real i / real count * 3.5)
       + (rs (2 * i) - 0.5) * 0.5)"
  "i < count \<Longrightarrow> generateTreePoints count rs ! (i * 3 + 1) =
     binary32 (- 3 + (1 - real i / real count) * 7)"
  "i < count \<Longrightarrow> generateTreePoints count rs ! (i * 3 + 2) =
     binary32 (sin (real i / real count * pi * 20) * (real i / real count * 3.5)
       + (rs (2 * i + 1) - 0.5) * 0.5)"
  unfolding generateTreePoints_def
  using gen_loop [where body = "generateTreePoints_body count rs" and n = count,
      OF generateTreePoints_body_eq zeros_length]
  by simp_all

lemma generateSpherePoints_loop:
  "length (generateSpherePoints count rs) = count * 3"
  "i < count \<Longrightarrow> generateSpherePoints count rs ! (i * 3) =
     binary32 ((4 + rs (3 * i + 2)) * sin (arccos (2 * rs (3 * i + 1) - 1)) * cos (rs (3 * i) * pi * 2))"
  "i < count \<Longrightarrow> generateSpherePoints count rs ! (i * 3 + 1) =
     binary32 ((4 + rs (3 * i + 2)) * sin (arccos (2 * rs (3 * i + 1) - 1)) * sin (rs (3 * i) * pi * 2))"
  "i < count \<Longrightarrow> generateSpherePoints count rs ! (i * 3 + 2) =
     binary32 ((4 + rs (3 * i + 2)) * cos (arccos (2 * rs (3 * i + 1) - 1)))"
  unfolding generateSpherePoints_def
  using gen_loop [where body = "generateSpherePoints_body rs" and n = count,
      OF generateSpherePoints_body_eq zeros_length]
  by simp_all

lemma generateHeartPoints_length: "length (generateHeartPoints count rs) = count * 3"
  unfolding generateHeartPoints_def
  using gen_loop(1) [where body = "generateHeartPoints_body rs",
      OF generateHeartPoints_body_eq zeros_length]
  by simp

lemma generateStarPoints_length: "length (generateStarPoints count rs) = count * 3"
  unfolding generateStarPoints_def
  using gen_loop(1) [where body = "generateStarPoints_body rs",
      OF generateStarPoints_body_eq zeros_length]
  by simp

lemma generateFlowerPoints_length: "length (generateFlowerPoints count rs) = count * 3"
  unfolding generateFlowerPoints_def
  using gen_loop(1) [where body = "generateFlowerPoints_body rs",
      OF generateFlowerPoints_body_eq zeros_length]
  by simp

lemma generate_loop:
  "generate shape count rs =
     snd (for_loop 0 count (shape_body shape count rs) (0, replicate (count * 3) 0))"
  by (cases shape)
    (simp_all add: generate_def shape_body_def generateTreePoints_def generateHeartPoints_def
      generateStarPoints_def generateSpherePoints_def generateFlowerPoints_def)

lemma generate_length: "length (generate shape count rs) = count * 3"
  by (cases shape)
    (simp_all add: generate_def generateTreePoints_loop(1) generateSpherePoints_loop(1)
      generateHeartPoints_length generateStarPoints_length generateFlowerPoints_length)

lemma generate_written:
  assumes "j < count * 3" and "length other = count * 3"
  shows "generate shape count rs ! j =
     snd (shape_body shape count rs (j div 3) (draws_per_point shape * (j div 3), other)) ! j"
proof (cases shape)
  case TREE
  with gen_loop_written [where body = "generateTreePoints_body count rs",
      OF generateTreePoints_body_eq assms(1) zeros_length assms(2)]
  show ?thesis
    by (simp add: generate_loop shape_body_def draws_per_point_def)
next
  case HEART
  with gen_loop_written [where body = "generateHeartPoints_body rs",
      OF generateHeartPoints_body_eq assms(1) zeros_length assms(2)]
  show ?thesis
    by (simp add: generate_loop shape_body_def draws_per_point_def)
next
  case STAR
  with gen_loop_written [where body = "generateStarPoints_body rs",
      OF generateStarPoints_body_eq assms(1) zeros_length assms(2)]
  show ?thesis
    by (simp add: generate_loop shape_body_def draws_per_point_def)
next
  case SPHERE
  with gen_loop_written [where body = "generateSpherePoints_body rs",
      OF generateSpherePoints_body_eq assms(1) zeros_length assms(2)]
  show ?thesis
    by (simp add: generate_loop shape_body_def draws_per_point_def)
next
  case FLOWER
  with gen_loop_written [where body = "generateFlowerPoints_body rs",
      OF generateFlowerPoints_body_eq assms(1) zeros_length assms(2)]
  show ?thesis
    by (simp add: generate_loop shape_body_def draws_per_point_def)
qed

lemma generate_overwrites:
  assumes "length init = count * 3"
  shows "snd (for_loop 0 count (shape_body shape count rs) (0, init)) = generate shape count rs"
proof (cases shape)
  case TREE
  with gen_loop_overwrites [where body = "generateTreePoints_body count rs",
      OF generateTreePoints_body_eq assms zeros_length]
  show ?thesis
    by (simp add: generate_loop shape_body_def)
next
  case HEART
  with gen_loop_overwrites [where body = "generateHeartPoints_body rs",
      OF generateHeartPoints_body_eq assms zeros_length]
  show ?thesis
    by (simp add: generate_loop shape_body_def)
next
  case STAR
  with gen_loop_overwrites [where body = "generateStarPoints_body rs",
      OF generateStarPoints_body_eq assms zeros_length]
  show ?thesis
    by (simp add: generate_loop shape_body_def)
next
  case SPHERE
  with gen_loop_overwrites [where body = "generateSpherePoints_body rs",
      OF generateSpherePoints_body_eq assms zeros_length]
  show ?thesis
    by (simp add: generate_loop shape_body_def)
next
  case FLOWER
  with gen_loop_overwrites [where body = "generateFlowerPoints_body rs",
      OF generateFlowerPoints_body_eq assms zeros_length]
  show ?thesis
    by (simp add: generate_loop shape_body_def)
qed







section \<open>Claims about the shape generator\<close>

text \<open>
  C3 (shape generator count contract).  For every shape of the closed set and every
  count, the generator returns a flat array of exactly \<open>3 * count\<close> numbers, that is
  \<open>count\<close> points, and every entry of it is written by the generator's loop: run on any
  buffer of that length in place of the freshly allocated zeros, the loop returns the same
  array, so no entry keeps what the buffer held before; and every entry \<open>j\<close> is the value
  that iteration \<open>j div 3\<close> of the loop stores at \<open>j\<close>, whatever the buffer holds.  For
  count 0 the result is the empty array.  The model has no error value because the
  generators have no failing operation.
\<close>

theorem C3_generate_count:
  "length (generate shape count rs) = 3 * count
   \<and> (\<forall>init. length init = 3 * count \<longrightarrow>
         snd (for_loop 0 count (shape_body shape count rs) (0, init)) = generate shape count rs)
   \<and> (\<forall>j < 3 * count. \<forall>init. length init = 3 * count \<longrightarrow>
         generate shape count rs ! j =
         snd (shape_body shape count rs (j div 3) (draws_per_point shape * (j div 3), init)) ! j)
   \<and> generate shape 0 rs = []"
proof -
  have "length (generate shape 0 rs) = 0"
    by (simp add: generate_length)
  then have "generate shape 0 rs = []"
    by simp
  then show ?thesis
    by (simp add: generate_length generate_written generate_overwrites mult.commute)
qed

theorem C3_generate_count_witness:
  "length (generate HEART 2 (constant_draws (1 / 2))) = 3 * 2
   \<and> length (replicate 6 (7::real)) = 3 * 2
   \<and> snd (for_loop 0 2 (shape_body HEART 2 (constant_draws (1 / 2))) (0, replicate 6 7))
       = generate HEART 2 (constant_draws (1 / 2))
   \<and> (4::nat) < 3 * 2
   \<and> generate HEART 2 (constant_draws (1 / 2)) ! 4 =
       snd (shape_body HEART 2 (constant_draws (1 / 2)) (4 div 3)
             (draws_per_point HEART * (4 div 3), replicate 6 7)) ! 4
   \<and> generate HEART 0 (constant_draws (1 / 2)) = []"
proof -
  note c3 = C3_generate_count [of HEART 2 "constant_draws (1 / 2)"]
  have len: "length (replicate 6 (7::real)) = 3 * 2" and j: "(4::nat) < 3 * 2"
    by simp_all
  note whole = c3 [THEN conjunct2, THEN conjunct1, rule_format, OF len]
  note entry = c3 [THEN conjunct2, THEN conjunct2, THEN conjunct1, rule_format, OF j len]
  show ?thesis
    using c3 [THEN conjunct1] whole entry c3 [THEN conjunct2, THEN conjunct2, THEN conjunct2]
    by (intro conjI) simp_all
qed




text \<open>
  C8 (tree generator formula).  As stated the claim fails: the source adds the random
  jitter to the \<open>x\<close> and \<open>z\<close> coordinates only, and the height \<open>y\<close> has none.  With every
  draw 0 and with every draw 3/4 the single point of a one-point tree has the same height
  4, while its \<open>x\<close> coordinate differs.
\<close>

theorem C8_tree_jitter_counterexample:
  "generateTreePoints 1 (constant_draws 0) ! (0 * 3 + 1) = 4
   \<and> generateTreePoints 1 (constant_draws (3 / 4)) ! (0 * 3 + 1) = 4
   \<and> generateTreePoints 1 (constant_draws 0) ! (0 * 3) = - (1 / 4)
   \<and> generateTreePoints 1 (constant_draws (3 / 4)) ! (0 * 3) = 1 / 8"
proof -
  have i: "(0::nat) < 1"
    by simp
  show ?thesis
    by (simp only: generateTreePoints_loop(2,3) [OF i]) (simp add: constant_draws_def)
qed

text \<open>
  C8, amended.  For every count, every index \<open>i < count\<close> (so count is at least 1) and
  \<open>t = i / count\<close>: the spiral angle is \<open>t * 2 * pi * 10\<close> (ten turns), the radius is
  \<open>3.5 * t\<close> (growing linearly with \<open>t\<close>), the height is \<open>- 3 + (1 - t) * 7\<close> (decreasing
  linearly with \<open>t\<close>, with no jitter), and the \<open>x\<close> and \<open>z\<close> coordinates carry the jitter
  \<open>(random - 0.5) * 0.5\<close> from two successive draws, of absolute value at most 1/4 for
  draws in \<open>[0, 1)\<close>.  The three numbers are stored in the \<^verbatim>\<open>Float32Array\<close> of the result.
\<close>

theorem C8_tree_formula:
  assumes "i < count"
  shows "generateTreePoints count rs ! (i * 3) =
           binary32 (cos (real i / real count * (2 * pi) * 10) * (3.5 * (real i / real count))
             + (rs (2 * i) - 0.5) * 0.5)
       \<and> generateTreePoints count rs ! (i * 3 + 1) =
           binary32 (- 3 + (1 - real i / real count) * 7)
       \<and> generateTreePoints count rs ! (i * 3 + 2) =
           binary32 (sin (real i / real count * (2 * pi) * 10) * (3.5 * (real i / real count))
             + (rs (2 * i + 1) - 0.5) * 0.5)
       \<and> (0 \<le> rs (2 * i) \<and> rs (2 * i) < 1 \<longrightarrow> \<bar>(rs (2 * i) - 0.5) * 0.5\<bar> \<le> 1 / 4)
       \<and> (0 \<le> rs (2 * i + 1) \<and> rs (2 * i + 1) < 1 \<longrightarrow> \<bar>(rs (2 * i + 1) - 0.5) * 0.5\<bar> \<le> 1 / 4)
       \<and> generate TREE count rs = generateTreePoints count rs"
proof -
  have "real i / real count * (2 * pi) * 10 = real i / real count * pi * 20"
    by simp
  moreover have "\<bar>(u - 0.5) * 0.5\<bar> \<le> 1 / 4" if "0 \<le> u" "u < 1" for u :: real
    using that by (auto simp: abs_if)
  ultimately show ?thesis
    unfolding generateTreePoints_loop(2-4) [OF assms]
    by (simp add: generate_def mult.commute)
qed

theorem C8_tree_formula_witness:
  "(1::nat) < 2
   \<and> generateTreePoints 2 (constant_draws (1 / 2)) ! (1 * 3) =
           binary32 (cos (real 1 / real 2 * (2 * pi) * 10) * (3.5 * (real 1 / real 2))
             + (constant_draws (1 / 2) (2 * 1) - 0.5) * 0.5)
   \<and> generateTreePoints 2 (constant_draws (1 / 2)) ! (1 * 3 + 1) = 1 / 2
   \<and> 0 \<le> constant_draws (1 / 2) (2 * 1) \<and> constant_draws (1 / 2) (2 * 1) < 1
   \<and> \<bar>(constant_draws (1 / 2) (2 * 1) - 0.5) * 0.5\<bar> \<le> 1 / 4"
proof -
  have i: "(1::nat) < 2"
    by simp
  from C8_tree_formula [OF i, of "constant_draws (1 / 2)"] show ?thesis
    by (simp add: constant_draws_def)
qed

section \<open>Facts about the gesture interpreter\<close>

lemma tips_forEach_missing:
  assumes "\<exists>idx \<in> set tips. length landmarks \<le> idx"
  shows "tips_forEach landmarks wrist tips avgDist = Inl TypeError"
  using assms
proof (induction tips arbitrary: avgDist)
  case Nil
  then show ?case by simp
next
  case (Cons idx tips)
  show ?case
  proof (cases "length landmarks \<le> idx")
    case True
    then show ?thesis
      by (simp add: at_index_def)
  next
    case False
    with Cons.prems have "\<exists>idx \<in> set tips. length landmarks \<le> idx"
      by auto
    from Cons.IH [OF this] show ?thesis
      by (cases wrist) (simp_all add: at_index_def Let_def split: sum.splits error.splits)
  qed
qed

lemma tips_forEach_present:
  assumes "\<forall>idx \<in> set tips. idx < length landmarks"
  shows "tips_forEach landmarks (Some w) tips avgDist =
     Inr (avgDist + (\<Sum>idx\<leftarrow>tips. sqrt ((x_coord (landmarks ! idx) - x_coord w) * (x_coord (landmarks ! idx) - x_coord w)
                 + (y_coord (landmarks ! idx) - y_coord w) * (y_coord (landmarks ! idx) - y_coord w))))"
  using assms
  by (induction tips arbitrary: avgDist) (simp_all add: at_index_def Let_def)

lemma interpretLandmarks_short:
  assumes "length landmarks < 21"
  shows "interpretLandmarks landmarks = Inl TypeError"
proof -
  have "\<exists>idx \<in> set [4, 8, 12, 16, 20]. length landmarks \<le> idx"
    using assms by simp
  from tips_forEach_missing [OF this] show ?thesis
    by (simp add: interpretLandmarks_def)
qed

lemma interpretLandmarks_full:
  assumes "21 \<le> length landmarks"
  shows "\<exists>v. interpretLandmarks landmarks =
     Inr \<lparr>isOpen = (v > 0.6), openness = v, rotationX = 1 - x_coord (landmarks ! 9),
          pinchDistance = sqrt ((x_coord (landmarks ! 4) - x_coord (landmarks ! 8))\<^sup>2
                              + (y_coord (landmarks ! 4) - y_coord (landmarks ! 8))\<^sup>2),
          isPinching = (sqrt ((x_coord (landmarks ! 4) - x_coord (landmarks ! 8))\<^sup>2
                              + (y_coord (landmarks ! 4) - y_coord (landmarks ! 8))\<^sup>2) < 0.05),
          handDetected = True\<rparr> \<and> 0 \<le> v \<and> v \<le> 1"
proof -
  have tips: "\<forall>idx \<in> set [4, 8, 12, 16, 20]. idx < length landmarks"
    using assms by simp
  have "0 < length landmarks"
    using assms by linarith
  then have w: "at_index landmarks 0 = Some (landmarks ! 0)"
    by (simp add: at_index_def)
  have others: "at_index landmarks 9 = Some (landmarks ! 9)"
    "at_index landmarks 4 = Some (landmarks ! 4)" "at_index landmarks 8 = Some (landmarks ! 8)"
    using assms by (simp_all add: at_index_def)
  obtain S where S: "tips_forEach landmarks (Some (landmarks ! 0)) [4, 8, 12, 16, 20] 0 = Inr S"
    using tips_forEach_present [OF tips] by blast
  show ?thesis
    unfolding interpretLandmarks_def Let_def w others S
    by (rule exI [of _ "min (max ((S / 5 - 0.2) / (0.4 - 0.2)) 0) 1"]) simp
qed

lemma predictWebcam_noHand:
  assumes "results = None \<or> results = Some []"
  shows "predictWebcam results g =
     Inr (g\<lparr>handDetected := False, openness := decay (openness g)\<rparr>)"
  using assms by (auto simp: predictWebcam_def decay_def)

lemma predictWebcam_frames_noHand:
  assumes "set frames \<subseteq> {None, Some []}" and "frames \<noteq> []"
  shows "predictWebcam_frames frames g =
     Inr (g\<lparr>handDetected := False, openness := (decay ^^ length frames) (openness g)\<rparr>)"
  using assms
proof (induction frames arbitrary: g)
  case Nil
  then show ?case by simp
next
  case (Cons results frames)
  have r: "results = None \<or> results = Some []"
    using Cons.prems(1) by auto
  show ?case
  proof (cases "frames = []")
    case True
    then show ?thesis
      by (simp add: predictWebcam_noHand [OF r])
  next
    case False
    have "set frames \<subseteq> {None, Some []}"
      using Cons.prems(1) by simp
    from Cons.IH [OF this False] show ?thesis
      by (simp add: predictWebcam_noHand [OF r] funpow_swap1)
  qed
qed

lemma literal_bounds: "1 / 32 \<le> binary64 0.05" "binary64 0.05 \<le> 1 / 16"
proof -
  have "binary64 (of_int 1 * 2 powr of_int (- 5)) = of_int 1 * 2 powr of_int (- 5)"
    "binary64 (of_int 1 * 2 powr of_int (- 4)) = of_int 1 * 2 powr of_int (- 4)"
    unfolding binary64_def by (intro round_to_representable; simp)+
  then have "binary64 (1 / 32) = 1 / 32" "binary64 (1 / 16) = 1 / 16"
    by (simp_all add: powr_neg_numeral)
  then show "1 / 32 \<le> binary64 0.05" "binary64 0.05 \<le> 1 / 16"
    using binary64_mono [of "1 / 32" "1 / 20"] binary64_mono [of "1 / 20" "1 / 16"] by simp_all
qed

lemma decay_nonneg: "0 \<le> decay v"
  by (simp add: decay_def)

lemma decay_double: "binary64 (decay v) = decay v"
  by (simp add: decay_def max_def)

lemma decay_0: "decay 0 = 0"
proof -
  have "binary64 (0 - binary64 0.05) \<le> 0"
    using literal_bounds(1) by (intro binary64_sign(2)) simp
  then show ?thesis
    by (simp add: decay_def)
qed

lemma decay_le:
  assumes "0 \<le> v" and "binary64 v = v"
  shows "decay v \<le> v"
proof -
  have "binary64 (v - binary64 0.05) \<le> binary64 v"
    using literal_bounds(1) by (intro binary64_mono) simp
  then show ?thesis
    using assms by (simp add: decay_def)
qed

lemma decay_funpow_step:
  assumes "1 \<le> k \<or> 0 \<le> v \<and> binary64 v = v"
  shows "(decay ^^ Suc k) v \<le> (decay ^^ k) v"
proof (cases k)
  case 0
  with assms show ?thesis
    by (simp add: decay_le)
next
  case (Suc m)
  have "decay (decay ((decay ^^ m) v)) \<le> decay ((decay ^^ m) v)"
    by (intro decay_le decay_nonneg decay_double)
  with Suc show ?thesis
    by simp
qed

lemma decay_funpow_mono:
  assumes "j \<le> n" and "1 \<le> j \<or> 0 \<le> v \<and> binary64 v = v"
  shows "(decay ^^ n) v \<le> (decay ^^ j) v"
  using assms(1)
proof (induction rule: dec_induct)
  case base
  show ?case
    by simp
next
  case (step k)
  have "(decay ^^ Suc k) v \<le> (decay ^^ k) v"
    using assms(2) step.hyps(1) by (intro decay_funpow_step) auto
  with step.IH show ?case
    by simp
qed

lemma binary64_error_small:
  assumes "\<bar>x\<bar> < 1"
  shows "\<bar>binary64 x - x\<bar> \<le> 1 / 2 ^ 54"
proof (cases "x = 0")
  case True
  then show ?thesis
    by simp
next
  case False
  then have pos: "0 < \<bar>x\<bar>"
    by simp
  have "log 2 \<bar>x\<bar> < 0"
    using assms pos by (simp add: less_powr_iff [symmetric])
  then have "\<lfloor>log 2 \<bar>x\<bar>\<rfloor> < 0"
    by (simp only: floor_less_zero)
  then have "last_place 53 (- 1074) x \<le> - 53"
    unfolding last_place_def by linarith
  then have "(2::real) powr of_int (last_place 53 (- 1074) x) \<le> 2 powr of_int (- 53)"
    by simp
  then have "(2::real) powr of_int (last_place 53 (- 1074) x) / 2 \<le> 1 / 2 ^ 54"
    by (simp add: powr_neg_numeral)
  with round_to_error [of 53 "- 1074" x] show ?thesis
    by (simp add: binary64_def)
qed

lemma decay_error:
  assumes "0 \<le> v" and "v \<le> 1" and "\<bar>v - w\<bar> \<le> e"
  shows "\<bar>decay v - max 0 (w - 0.05)\<bar> \<le> e + 1 / 2 ^ 53"
proof -
  let ?c = "binary64 0.05"
  have "\<bar>v - ?c\<bar> < 1"
    using assms(1,2) literal_bounds by (simp add: abs_less_iff)
  then have a: "\<bar>binary64 (v - ?c) - (v - ?c)\<bar> \<le> 1 / 2 ^ 54"
    by (rule binary64_error_small)
  have b: "\<bar>?c - 0.05\<bar> \<le> 1 / 2 ^ 54"
    by (rule binary64_error_small) simp
  have "\<bar>max 0 s - max 0 t\<bar> \<le> \<bar>s - t\<bar>" for s t :: real
    by (simp add: max_def abs_if)
  then have "\<bar>decay v - max 0 (w - 0.05)\<bar> \<le> \<bar>binary64 (v - ?c) - (w - 0.05)\<bar>"
    unfolding decay_def .
  also have "\<dots> \<le> e + (1 / 2 ^ 54 + 1 / 2 ^ 54)"
    using a b assms(3) unfolding abs_le_iff by linarith
  finally show ?thesis
    by simp
qed

lemma decay_funpow_error:
  assumes "0 \<le> v" and "v \<le> 1" and "binary64 v = v"
  shows "\<bar>(decay ^^ n) v - max 0 (v - real n * 0.05)\<bar> \<le> real n / 2 ^ 53"
proof (induction n)
  case 0
  with assms(1) show ?case
    by simp
next
  case (Suc n)
  have range: "0 \<le> (decay ^^ n) v" "(decay ^^ n) v \<le> 1"
  proof -
    show "0 \<le> (decay ^^ n) v"
      using assms(1) decay_nonneg by (cases n) simp_all
    have "(decay ^^ n) v \<le> (decay ^^ 0) v"
      using assms(1,3) by (intro decay_funpow_mono) simp_all
    with assms(2) show "(decay ^^ n) v \<le> 1"
      by simp
  qed
  have ideal: "max 0 (v - real (Suc n) * 0.05) = max 0 (max 0 (v - real n * 0.05) - 0.05)"
    by (simp add: max_def algebra_simps)
  have "\<bar>decay ((decay ^^ n) v) - max 0 (max 0 (v - real n * 0.05) - 0.05)\<bar>
      \<le> real n / 2 ^ 53 + 1 / 2 ^ 53"
    by (rule decay_error [OF range Suc.IH])
  then show ?case
    unfolding ideal by (simp add: add_divide_distrib)
qed

lemma decay_run:
  "binary64 (3 / 10) = 5404319552844595 / 2 ^ 54"
  "binary64 0.05 = 3602879701896397 / 2 ^ 56"
  "decay (5404319552844595 / 2 ^ 54) = 1 / 4"
  "decay (1 / 4) = 3602879701896397 / 2 ^ 54"
  "decay (3602879701896397 / 2 ^ 54) = 1351079888211149 / 2 ^ 53"
  "decay (1351079888211149 / 2 ^ 53) = 7205759403792795 / 2 ^ 56"
  "decay (7205759403792795 / 2 ^ 56) = 1801439850948199 / 2 ^ 55"
  "decay (1801439850948199 / 2 ^ 55) = 1 / 2 ^ 56"
proof -
  show "binary64 (3 / 10) = 5404319552844595 / 2 ^ 54"
    unfolding binary64_def
    by (rule round_to_eval_tie [where k = "- 2" and e = "- 54", THEN trans])
      (simp_all add: powr_neg_numeral round_ties_even_def)
  show c: "binary64 0.05 = 3602879701896397 / 2 ^ 56"
    unfolding binary64_def
    by (rule round_to_eval_tie [where k = "- 5" and e = "- 57", THEN trans])
      (simp_all add: powr_neg_numeral round_ties_even_def)
  have "binary64 (5404319552844595 / 2 ^ 54 - 3602879701896397 / 2 ^ 56) = 1 / 4"
    unfolding binary64_def
    by (rule round_to_eval_tie [where k = "- 3" and e = "- 55", THEN trans])
      (simp_all add: powr_neg_numeral round_ties_even_def)
  then show "decay (5404319552844595 / 2 ^ 54) = 1 / 4"
    unfolding decay_def c by simp
  have "binary64 (1 / 4 - 3602879701896397 / 2 ^ 56) = 3602879701896397 / 2 ^ 54"
    unfolding binary64_def
    by (rule round_to_eval_tie [where k = "- 3" and e = "- 55", THEN trans])
      (simp_all add: powr_neg_numeral round_ties_even_def)
  then show "decay (1 / 4) = 3602879701896397 / 2 ^ 54"
    unfolding decay_def c by simp
  have "binary64 (3602879701896397 / 2 ^ 54 - 3602879701896397 / 2 ^ 56)
      = 1351079888211149 / 2 ^ 53"
    unfolding binary64_def
    by (rule round_to_eval_tie [where k = "- 3" and e = "- 55", THEN trans])
      (simp_all add: powr_neg_numeral round_ties_even_def)
  then show "decay (3602879701896397 / 2 ^ 54) = 1351079888211149 / 2 ^ 53"
    unfolding decay_def c by simp
  have "binary64 (1351079888211149 / 2 ^ 53 - 3602879701896397 / 2 ^ 56)
      = 7205759403792795 / 2 ^ 56"
    unfolding binary64_def
    by (rule round_to_eval_tie [where k = "- 4" and e = "- 56", THEN trans])
      (simp_all add: powr_neg_numeral round_ties_even_def)
  then show "decay (1351079888211149 / 2 ^ 53) = 7205759403792795 / 2 ^ 56"
    unfolding decay_def c by simp
  have "binary64 (7205759403792795 / 2 ^ 56 - 3602879701896397 / 2 ^ 56)
      = 1801439850948199 / 2 ^ 55"
    unfolding binary64_def
    by (rule round_to_eval_tie [where k = "- 5" and e = "- 57", THEN trans])
      (simp_all add: powr_neg_numeral round_ties_even_def)
  then show "decay (7205759403792795 / 2 ^ 56) = 1801439850948199 / 2 ^ 55"
    unfolding decay_def c by simp
  have "binary64 (1801439850948199 / 2 ^ 55 - 3602879701896397 / 2 ^ 56) = 1 / 2 ^ 56"
    unfolding binary64_def
    by (rule round_to_eval_tie [where k = "- 56" and e = "- 108", THEN trans])
      (simp_all add: powr_neg_numeral round_ties_even_def)
  then show "decay (1801439850948199 / 2 ^ 55) = 1 / 2 ^ 56"
    unfolding decay_def c by simp
qed

lemma pinch_hand_simps:
  "length (pinch_hand d) = 21"
  "pinch_hand d ! 4 = Landmark (1 / 2) (1 / 2)"
  "pinch_hand d ! 8 = Landmark (1 / 2 + d) (1 / 2)"
  by (simp_all add: pinch_hand_def)

lemma pinch_hand_distance:
  "sqrt ((x_coord (pinch_hand d ! 4) - x_coord (pinch_hand d ! 8))\<^sup>2
       + (y_coord (pinch_hand d ! 4) - y_coord (pinch_hand d ! 8))\<^sup>2) = \<bar>d\<bar>"
  by (simp add: pinch_hand_simps)

lemma gesture_simps:
  "openness (g\<lparr>openness := a\<rparr>) = a"
  "g\<lparr>openness := a, handDetected := False, openness := b\<rparr>
     = g\<lparr>handDetected := False, openness := b\<rparr>"
  by simp_all

lemma decay_unfold:
  "(decay ^^ 1) v = decay v"
  "(decay ^^ 3) v = decay (decay (decay v))"
  "(decay ^^ 6) v = decay (decay (decay (decay (decay (decay v)))))"
  by (simp_all add: eval_nat_numeral)

lemma binary64_small: "binary64 1 = 1" "binary64 (1 / 4) = 1 / 4"
proof -
  have "binary64 (of_int 1 * 2 powr of_int 0) = of_int 1 * 2 powr of_int 0"
    "binary64 (of_int 1 * 2 powr of_int (- 2)) = of_int 1 * 2 powr of_int (- 2)"
    unfolding binary64_def by (intro round_to_representable; simp)+
  then show "binary64 1 = 1" "binary64 (1 / 4) = 1 / 4"
    by (simp_all add: powr_neg_numeral)
qed

lemma decay_below_literal:
  assumes "x \<le> binary64 0.05"
  shows "decay x = 0"
proof -
  have "binary64 (x - binary64 0.05) \<le> 0"
    using assms by (intro binary64_sign(2)) simp
  then show ?thesis
    by (simp add: decay_def)
qed

lemma decay_funpow_0: "(decay ^^ n) 0 = 0"
  by (induction n) (simp_all add: decay_0)

lemma decay_funpow_end:
  assumes "0 \<le> v" and "v \<le> 1" and "binary64 v = v" and "22 \<le> N"
  shows "(decay ^^ N) v = 0"
proof -
  have "\<bar>(decay ^^ 21) v - max 0 (v - real 21 * 0.05)\<bar> \<le> real 21 / 2 ^ 53"
    by (rule decay_funpow_error [OF assms(1-3)])
  moreover have "max 0 (v - real 21 * 0.05) = 0"
    using assms(2) by simp
  ultimately have "(decay ^^ 21) v \<le> 1 / 32"
    by simp
  with literal_bounds(1) have "decay ((decay ^^ 21) v) = 0"
    by (intro decay_below_literal) simp
  then have "(decay ^^ 22) v = 0"
    by (simp add: eval_nat_numeral)
  moreover have "(decay ^^ N) v = (decay ^^ (N - 22)) ((decay ^^ 22) v)"
    using assms(4) by (simp flip: funpow_add [THEN fun_cong, unfolded o_apply])
  ultimately show ?thesis
    by (simp add: decay_funpow_0)
qed

section \<open>Claims about the gesture interpreter\<close>

text \<open>
  C4 (gesture decay).  As stated the claim fails: the openness after \<open>N\<close> frames without a
  hand is not \<open>max 0 (v - N * 0.05)\<close>.  The source subtracts in double precision, where 0.05
  is not representable and every difference is rounded.  From the double nearest to 0.3, six
  frames without a hand leave the openness \<open>2\<^sup>-\<^sup>5\<^sup>6\<close>, where the formula gives 0.
\<close>

theorem C4_gesture_decay_counterexample:
  "predictWebcam_frames [None, None, None, None, None, None]
       (initialGesture\<lparr>openness := binary64 (3 / 10)\<rparr>)
     = Inr (initialGesture\<lparr>handDetected := False, openness := 1 / 2 ^ 56\<rparr>)
   \<and> max 0 (binary64 (3 / 10) - real 6 * 0.05) = 0
   \<and> max 0 (binary64 (3 / 10) - real 6 * 0.05) \<noteq> 1 / 2 ^ 56"
proof -
  have frames: "set [None, None, None, None, None, None :: landmark list list option]
      \<subseteq> {None, Some []}"
    and ne: "[None, None, None, None, None, None :: landmark list list option] \<noteq> []"
    and len: "length [None, None, None, None, None, None :: landmark list list option] = 6"
    by simp_all
  have run: "(decay ^^ 6) (5404319552844595 / 2 ^ 54) = 1 / 2 ^ 56"
    by (simp only: decay_unfold decay_run)
  note frames_result = predictWebcam_frames_noHand [OF frames ne,
      of "initialGesture\<lparr>openness := binary64 (3 / 10)\<rparr>",
      unfolded len gesture_simps decay_run(1) run]
  have formula: "max 0 (5404319552844595 / 2 ^ 54 - real 6 * 0.05) = 0"
    "max 0 (5404319552844595 / 2 ^ 54 - real 6 * 0.05) \<noteq> 1 / 2 ^ 56"
    by simp_all
  show ?thesis
    unfolding decay_run(1) by (intro conjI frames_result formula)
qed

text \<open>
  C4, amended.  One frame without a hand (the detector returned \<^verbatim>\<open>null\<close> or no hand)
  replaces the openness \<open>v\<close> by \<open>decay v\<close>, the double nearest to \<open>v - c\<close> floored at 0,
  where \<open>c\<close> is the double nearest to 0.05.  Starting from any gesture state, after
  \<open>N \<ge> 1\<close> such frames the state is the initial one with \<open>handDetected = false\<close> and the
  openness \<open>decay\<close> applied \<open>N\<close> times, every other field as it was.  After every number
  \<open>j\<close> of these frames with \<open>1 \<le> j \<le> N\<close> the flag \<open>handDetected\<close> is false and the
  openness is at least the openness after all \<open>N\<close> frames, which is not negative: the
  sequence of results does not increase.  It does not exceed the initial openness either
  when that is a double and not negative, and when the initial openness \<open>v\<close> is a double
  between 0 and 1, as every openness a hand leaves is, the result is within
  \<open>N / 2\<^sup>5\<^sup>3\<close> of \<open>max 0 (v - N * 0.05)\<close> and is 0 from the 22nd frame on.
\<close>

theorem C4_gesture_decay:
  assumes "set frames \<subseteq> {None, Some []}" and "1 \<le> N" and "length frames = N"
  shows "predictWebcam_frames frames g =
           Inr (g\<lparr>handDetected := False, openness := (decay ^^ N) (openness g)\<rparr>)
       \<and> (\<forall>j. 1 \<le> j \<and> j \<le> N \<longrightarrow>
             (\<exists>gj gN. predictWebcam_frames (take j frames) g = Inr gj
                \<and> predictWebcam_frames frames g = Inr gN
                \<and> \<not> handDetected gj
                \<and> openness gj = (decay ^^ j) (openness g)
                \<and> 0 \<le> openness gN
                \<and> openness gN \<le> openness gj))
       \<and> (0 \<le> openness g \<and> binary64 (openness g) = openness g \<longrightarrow>
             (\<exists>gN. predictWebcam_frames frames g = Inr gN \<and> openness gN \<le> openness g))
       \<and> (0 \<le> openness g \<and> openness g \<le> 1 \<and> binary64 (openness g) = openness g \<longrightarrow>
             (\<exists>gN. predictWebcam_frames frames g = Inr gN
                \<and> \<bar>openness gN - max 0 (openness g - real N * 0.05)\<bar> \<le> real N / 2 ^ 53
                \<and> (22 \<le> N \<longrightarrow> openness gN = 0)))"
proof -
  have ne: "frames \<noteq> []"
    using assms(2,3) by auto
  have all: "predictWebcam_frames frames g =
      Inr (g\<lparr>handDetected := False, openness := (decay ^^ N) (openness g)\<rparr>)"
    using predictWebcam_frames_noHand [OF assms(1) ne, of g] assms(3) by simp
  have prefix: "predictWebcam_frames (take j frames) g =
      Inr (g\<lparr>handDetected := False, openness := (decay ^^ j) (openness g)\<rparr>)"
    if "1 \<le> j" "j \<le> N" for j
  proof -
    have "set (take j frames) \<subseteq> {None, Some []}"
      using assms(1) set_take_subset [of j frames] by blast
    moreover have "take j frames \<noteq> []"
      using that ne by auto
    moreover have "length (take j frames) = j"
      using that assms(3) by simp
    ultimately show ?thesis
      using predictWebcam_frames_noHand [of "take j frames" g] by simp
  qed
  have mono: "(decay ^^ N) (openness g) \<le> (decay ^^ j) (openness g)"
    if "1 \<le> j" "j \<le> N" for j
    using that by (intro decay_funpow_mono) simp_all
  have floor: "0 \<le> (decay ^^ N) (openness g)"
    using assms(2) decay_nonneg by (cases N) simp_all
  have initial: "(decay ^^ N) (openness g) \<le> openness g"
    if "0 \<le> openness g" "binary64 (openness g) = openness g"
    using decay_funpow_mono [of 0 N "openness g"] that by simp
  have near: "\<bar>(decay ^^ N) (openness g) - max 0 (openness g - real N * 0.05)\<bar>
      \<le> real N / 2 ^ 53"
    if "0 \<le> openness g" "openness g \<le> 1" "binary64 (openness g) = openness g"
    using that by (rule decay_funpow_error)
  have rest: "(decay ^^ N) (openness g) = 0"
    if "0 \<le> openness g" "openness g \<le> 1" "binary64 (openness g) = openness g" "22 \<le> N"
    using that by (rule decay_funpow_end)
  show ?thesis
    using all prefix mono floor initial near rest by simp
qed

theorem C4_gesture_decay_witness:
  "set [None, Some [], None :: landmark list list option] \<subseteq> {None, Some []}
   \<and> (1::nat) \<le> 3
   \<and> length [None, Some [], None :: landmark list list option] = 3
   \<and> binary64 (1 / 4) = 1 / 4
   \<and> predictWebcam_frames [None, Some [], None] (initialGesture\<lparr>openness := 1 / 4\<rparr>) =
        Inr (initialGesture\<lparr>handDetected := False, openness := 7205759403792795 / 2 ^ 56\<rparr>)
   \<and> (\<exists>gj gN. predictWebcam_frames (take 1 [None, Some [], None])
                   (initialGesture\<lparr>openness := 1 / 4\<rparr>) = Inr gj
          \<and> predictWebcam_frames [None, Some [], None]
                   (initialGesture\<lparr>openness := 1 / 4\<rparr>) = Inr gN
          \<and> \<not> handDetected gj \<and> openness gj = 3602879701896397 / 2 ^ 54
          \<and> 0 \<le> openness gN \<and> openness gN \<le> openness gj)
   \<and> (\<exists>gN. predictWebcam_frames [None, Some [], None]
                   (initialGesture\<lparr>openness := 1 / 4\<rparr>) = Inr gN
          \<and> openness gN \<le> 1 / 4
          \<and> \<bar>openness gN - 1 / 10\<bar> \<le> 3 / 2 ^ 53)
   \<and> set (replicate 22 (None :: landmark list list option)) \<subseteq> {None, Some []}
   \<and> (1::nat) \<le> 22
   \<and> length (replicate 22 (None :: landmark list list option)) = 22
   \<and> binary64 1 = 1
   \<and> predictWebcam_frames (replicate 22 None) (initialGesture\<lparr>openness := 1\<rparr>) =
        Inr (initialGesture\<lparr>handDetected := False, openness := 0\<rparr>)"
proof -
  let ?L = "[None, Some [], None :: landmark list list option]"
  let ?R = "replicate 22 (None :: landmark list list option)"
  let ?g = "initialGesture\<lparr>openness := 1 / 4\<rparr>"
  let ?h = "initialGesture\<lparr>openness := 1\<rparr>"
  have a: "set ?L \<subseteq> {None, Some []}" and b: "(1::nat) \<le> 3" and c: "length ?L = 3"
    by simp_all
  have a': "set ?R \<subseteq> {None, Some []}" and b': "(1::nat) \<le> 22" and c': "length ?R = 22"
    by simp_all
  have j: "(1::nat) \<le> 1 \<and> (1::nat) \<le> 3"
    by simp
  have v: "0 \<le> openness ?g \<and> binary64 (openness ?g) = openness ?g"
    and v1: "0 \<le> openness ?g \<and> openness ?g \<le> 1 \<and> binary64 (openness ?g) = openness ?g"
    and v1': "0 \<le> openness ?h \<and> openness ?h \<le> 1 \<and> binary64 (openness ?h) = openness ?h"
    by (simp_all add: binary64_small)
  note all = C4_gesture_decay [OF a b c, of ?g]
  note final = all [THEN conjunct1, unfolded gesture_simps decay_unfold decay_run]
  note first = all [THEN conjunct2, THEN conjunct1, rule_format, OF j,
      unfolded gesture_simps decay_unfold decay_run]
  note initial = all [THEN conjunct2, THEN conjunct2, THEN conjunct1, rule_format, OF v,
      unfolded gesture_simps]
  note near = all [THEN conjunct2, THEN conjunct2, THEN conjunct2, rule_format, OF v1,
      unfolded gesture_simps]
  note whole = C4_gesture_decay [OF a' b' c', of ?h, THEN conjunct1, unfolded gesture_simps]
  note rest = C4_gesture_decay [OF a' b' c', of ?h, THEN conjunct2, THEN conjunct2,
      THEN conjunct2, rule_format, OF v1', unfolded gesture_simps]
  from initial obtain g1 where g1: "predictWebcam_frames ?L ?g = Inr g1" "openness g1 \<le> 1 / 4"
    by blast
  from near obtain g2 where g2: "predictWebcam_frames ?L ?g = Inr g2"
    "\<bar>openness g2 - max 0 (1 / 4 - real 3 * 0.05)\<bar> \<le> real 3 / 2 ^ 53"
    by blast
  have "g2 = g1"
    using g2(1) unfolding g1(1) by simp
  with g2(2) have "\<bar>openness g1 - 1 / 10\<bar> \<le> 3 / 2 ^ 53"
    by simp
  with g1 have third: "\<exists>gN. predictWebcam_frames ?L ?g = Inr gN
          \<and> openness gN \<le> 1 / 4 \<and> \<bar>openness gN - 1 / 10\<bar> \<le> 3 / 2 ^ 53"
    by blast
  from rest obtain g3 where g3: "predictWebcam_frames ?R ?h = Inr g3"
    "22 \<le> (22::nat) \<longrightarrow> openness g3 = 0"
    by blast
  have "openness g3 = (decay ^^ 22) 1"
    using whole unfolding g3(1) by simp
  with g3(2) have "(decay ^^ 22) 1 = 0"
    by simp
  note last = whole [unfolded this]
  show ?thesis
    by (intro conjI a b c a' b' c' binary64_small final first third last)
qed

text \<open>
  C9 (pinch detection threshold).  For every frame with a hand of at least 21 landmarks
  the interpretation succeeds, \<open>pinchDistance\<close> is the Euclidean distance \<open>d\<close> (in the
  image plane, the coordinates \<open>x\<close> and \<open>y\<close>) between the thumb tip (landmark 4) and the
  index tip (landmark 8), and \<open>isPinching\<close> holds exactly when \<open>d < 0.05\<close>: it holds at
  distance 0.03 and 0.049 and fails at 0.10 and 0.051.
\<close>

theorem C9_pinch_threshold:
  assumes "21 \<le> length landmarks"
    and "d = sqrt ((x_coord (landmarks ! 4) - x_coord (landmarks ! 8))\<^sup>2
                 + (y_coord (landmarks ! 4) - y_coord (landmarks ! 8))\<^sup>2)"
  shows "\<exists>g'. predictWebcam (Some (landmarks # others)) g = Inr g'
           \<and> pinchDistance g' = d
           \<and> (isPinching g' \<longleftrightarrow> d < 0.05)
           \<and> (d = 0.03 \<longrightarrow> isPinching g') \<and> (d = 0.049 \<longrightarrow> isPinching g')
           \<and> (d = 0.10 \<longrightarrow> \<not> isPinching g') \<and> (d = 0.051 \<longrightarrow> \<not> isPinching g')"
proof -
  from interpretLandmarks_full [OF assms(1)] obtain v where
    "interpretLandmarks landmarks =
       Inr \<lparr>isOpen = (v > 0.6), openness = v, rotationX = 1 - x_coord (landmarks ! 9),
            pinchDistance = d, isPinching = (d < 0.05), handDetected = True\<rparr>"
    unfolding assms(2) by blast
  then show ?thesis
    by (simp add: predictWebcam_def)
qed

theorem C9_pinch_threshold_witness:
  "21 \<le> length (pinch_hand 0.03)
   \<and> 0.03 = sqrt ((x_coord (pinch_hand 0.03 ! 4) - x_coord (pinch_hand 0.03 ! 8))\<^sup>2
                 + (y_coord (pinch_hand 0.03 ! 4) - y_coord (pinch_hand 0.03 ! 8))\<^sup>2)
   \<and> (\<exists>g'. predictWebcam (Some [pinch_hand 0.03]) initialGesture = Inr g'
           \<and> pinchDistance g' = 0.03 \<and> isPinching g')
   \<and> (\<exists>g'. predictWebcam (Some [pinch_hand 0.049]) initialGesture = Inr g'
           \<and> pinchDistance g' = 0.049 \<and> isPinching g')
   \<and> (\<exists>g'. predictWebcam (Some [pinch_hand 0.10]) initialGesture = Inr g'
           \<and> pinchDistance g' = 0.10 \<and> \<not> isPinching g')
   \<and> (\<exists>g'. predictWebcam (Some [pinch_hand 0.051]) initialGesture = Inr g'
           \<and> pinchDistance g' = 0.051 \<and> \<not> isPinching g')"
proof -
  have len: "21 \<le> length (pinch_hand d)" for d
    by (simp add: pinch_hand_simps)
  have dist: "d = sqrt ((x_coord (pinch_hand d ! 4) - x_coord (pinch_hand d ! 8))\<^sup>2
                 + (y_coord (pinch_hand d ! 4) - y_coord (pinch_hand d ! 8))\<^sup>2)"
    if "0 \<le> d" for d
    using that by (simp add: pinch_hand_distance)
  have d1: "(0::real) \<le> 0.03" and d2: "(0::real) \<le> 0.049"
    and d3: "(0::real) \<le> 0.10" and d4: "(0::real) \<le> 0.051"
    by simp_all
  from C9_pinch_threshold [OF len dist [OF d1], of "[]" initialGesture]
    C9_pinch_threshold [OF len dist [OF d2], of "[]" initialGesture]
    C9_pinch_threshold [OF len dist [OF d3], of "[]" initialGesture]
    C9_pinch_threshold [OF len dist [OF d4], of "[]" initialGesture]
    len [of "0.03"] dist [OF d1]
  show ?thesis
    by simp
qed

text \<open>
  C10 (malformed gesture data).  As stated the claim fails: a hand with fewer than 21
  landmarks is not absorbed.  The source reads \<^verbatim>\<open>landmarks[20].x\<close> with no check, which
  throws a \<^verbatim>\<open>TypeError\<close> before the gesture state is written, whereas the no-hand branch
  returns a state.
\<close>

theorem C10_malformed_counterexample:
  "predictWebcam (Some [replicate 20 (Landmark (1 / 2) (1 / 2))]) initialGesture = Inl TypeError
   \<and> predictWebcam None initialGesture =
        Inr (initialGesture\<lparr>handDetected := False, openness := 0\<rparr>)
   \<and> predictWebcam (Some [replicate 20 (Landmark (1 / 2) (1 / 2))]) initialGesture
        \<noteq> predictWebcam None initialGesture"
  by (simp add: predictWebcam_noHand interpretLandmarks_short initialGesture_def decay_0
      predictWebcam_def [of "Some (x # xs)" for x xs])

text \<open>
  C10, amended.  A detector result whose first hand has fewer than 21 landmarks makes
  the interpretation throw a \<^verbatim>\<open>TypeError\<close>, whatever the other hands and the gesture state
  are, and the chain of frames ends there; the gesture state is not written.  Only an
  absent result and an empty list of hands take the no-hand branch
  (\<open>handDetected = false\<close>, openness lowered by 0.05 in double precision and floored
  at 0, the other fields retained), and a first hand of at least 21 landmarks is interpreted without error with
  \<open>handDetected = true\<close>.
\<close>

theorem C10_malformed_landmarks:
  "(length landmarks < 21 \<longrightarrow>
      predictWebcam (Some (landmarks # others)) g = Inl TypeError
      \<and> predictWebcam_frames (Some (landmarks # others) # frames) g = Inl TypeError)
   \<and> (21 \<le> length landmarks \<longrightarrow>
        (\<exists>g'. predictWebcam (Some (landmarks # others)) g = Inr g' \<and> handDetected g'))
   \<and> predictWebcam None g =
        Inr (g\<lparr>handDetected := False, openness := max 0 (binary64 (openness g - binary64 0.05))\<rparr>)
   \<and> predictWebcam (Some []) g =
        Inr (g\<lparr>handDetected := False, openness := max 0 (binary64 (openness g - binary64 0.05))\<rparr>)"
proof -
  have "\<exists>g'. predictWebcam (Some (landmarks # others)) g = Inr g' \<and> handDetected g'"
    if "21 \<le> length landmarks"
  proof -
    from interpretLandmarks_full [OF that] obtain g' where
      "interpretLandmarks landmarks = Inr g'" and "handDetected g'"
      by force
    then show ?thesis
      by (simp add: predictWebcam_def)
  qed
  moreover have "predictWebcam (Some (landmarks # others)) g = Inl TypeError"
    if "length landmarks < 21"
    using that by (simp add: predictWebcam_def interpretLandmarks_short)
  ultimately show ?thesis
    by (simp add: predictWebcam_noHand decay_def)
qed

theorem C10_malformed_landmarks_witness:
  "length (replicate 5 (Landmark 0 0)) < 21
   \<and> predictWebcam (Some [replicate 5 (Landmark 0 0)]) initialGesture = Inl TypeError
   \<and> predictWebcam_frames [Some [replicate 5 (Landmark 0 0)], None] initialGesture
        = Inl TypeError
   \<and> 21 \<le> length (pinch_hand 0)
   \<and> (\<exists>g'. predictWebcam (Some [pinch_hand 0]) initialGesture = Inr g' \<and> handDetected g')"
proof -
  have short: "length (replicate 5 (Landmark 0 0)) < 21"
    by simp
  have full: "21 \<le> length (pinch_hand 0)"
    by (simp add: pinch_hand_simps)
  from C10_malformed_landmarks [of "replicate 5 (Landmark 0 0)" "[]" initialGesture "[None]"]
    C10_malformed_landmarks [of "pinch_hand 0" "[]" initialGesture "[]"] short full
  show ?thesis
    by simp
qed

section \<open>Facts about the particle store and the animator\<close>

lemma copy_loop:
  assumes "length target = n" and "length newPos = n"
  shows "for_loop 0 n (\<lambda>i t. t[i := newPos ! i]) target = newPos"
proof -
  define P where "P j t \<longleftrightarrow> length t = n \<and> (\<forall>m<j. t ! m = newPos ! m)"
    for j :: nat and t :: "'a list"
  have "P n (for_loop 0 n (\<lambda>i t. t[i := newPos ! i]) target)"
  proof (rule for_loop_invariant [where P = P])
    show "P 0 target"
      using assms(1) by (simp add: P_def)
  next
    fix j t
    assume "j < n" and "P j t"
    then show "P (Suc j) (t[j := newPos ! j])"
      by (auto simp: P_def nth_list_update less_Suc_eq)
  qed simp
  then show ?thesis
    using assms(2) by (auto simp: P_def intro: nth_equalityI)
qed

lemma update_loop:
  fixes body :: "nat \<Rightarrow> nat \<times> real list \<Rightarrow> nat \<times> real list" and n :: nat
  assumes body: "\<forall>i k c. i * 3 + 2 < length c \<longrightarrow> body i (k, c) =
      (k + d, c[i * 3 := X k i (c ! (i * 3)), i * 3 + 1 := Y k i (c ! (i * 3 + 1)),
                i * 3 + 2 := Z k i (c ! (i * 3 + 2))])"
    and len: "length init = n * 3"
  defines "res \<equiv> snd (for_loop 0 n body (0, init))"
  shows "length res = n * 3"
    and "i < n \<Longrightarrow> res ! (i * 3) = X (d * i) i (init ! (i * 3))"
    and "i < n \<Longrightarrow> res ! (i * 3 + 1) = Y (d * i) i (init ! (i * 3 + 1))"
    and "i < n \<Longrightarrow> res ! (i * 3 + 2) = Z (d * i) i (init ! (i * 3 + 2))"
proof -
  define P where "P j st \<longleftrightarrow> fst st = d * j \<and> length (snd st) = n * 3 \<and>
      (\<forall>m<j. snd st ! (m * 3) = X (d * m) m (init ! (m * 3))
            \<and> snd st ! (m * 3 + 1) = Y (d * m) m (init ! (m * 3 + 1))
            \<and> snd st ! (m * 3 + 2) = Z (d * m) m (init ! (m * 3 + 2))) \<and>
      (\<forall>m. j \<le> m \<longrightarrow> snd st ! (m * 3) = init ! (m * 3)
            \<and> snd st ! (m * 3 + 1) = init ! (m * 3 + 1)
            \<and> snd st ! (m * 3 + 2) = init ! (m * 3 + 2))"
    for j :: nat and st :: "nat \<times> real list"
  have init: "P 0 (0, init)"
    by (simp add: P_def len)
  have step: "P (Suc j) (body j t)" if "j < n" and "P j t" for j t
  proof -
    obtain k c where t: "t = (k, c)"
      by (cases t)
    from that t have k: "k = d * j" and lc: "length c = n * 3"
      and old: "\<And>m. m < j \<Longrightarrow> c ! (m * 3) = X (d * m) m (init ! (m * 3))
            \<and> c ! (m * 3 + 1) = Y (d * m) m (init ! (m * 3 + 1))
            \<and> c ! (m * 3 + 2) = Z (d * m) m (init ! (m * 3 + 2))"
      and rest: "\<And>m. j \<le> m \<Longrightarrow> c ! (m * 3) = init ! (m * 3)
            \<and> c ! (m * 3 + 1) = init ! (m * 3 + 1) \<and> c ! (m * 3 + 2) = init ! (m * 3 + 2)"
      by (simp_all add: P_def)
    have in_range: "j * 3 + 2 < length c"
      using \<open>j < n\<close> lc by simp
    have b: "body j (d * j, c) =
      (d * j + d, c[j * 3 := X (d * j) j (c ! (j * 3)), j * 3 + 1 := Y (d * j) j (c ! (j * 3 + 1)),
                j * 3 + 2 := Z (d * j) j (c ! (j * 3 + 2))])"
      using body in_range by blast
    have t: "t = (d * j, c)"
      using t k by simp
    have updated: "snd (body j t) ! (m * 3) = X (d * m) m (init ! (m * 3))
            \<and> snd (body j t) ! (m * 3 + 1) = Y (d * m) m (init ! (m * 3 + 1))
            \<and> snd (body j t) ! (m * 3 + 2) = Z (d * m) m (init ! (m * 3 + 2))"
      if "m < Suc j" for m
    proof (cases "m = j")
      case True
      with in_range rest [of j] show ?thesis
        by (simp add: t b)
    next
      case False
      with that have "m < j" by simp
      then show ?thesis
        using old [of m] by (simp add: t b)
    qed
    have untouched: "snd (body j t) ! (m * 3) = init ! (m * 3)
            \<and> snd (body j t) ! (m * 3 + 1) = init ! (m * 3 + 1)
            \<and> snd (body j t) ! (m * 3 + 2) = init ! (m * 3 + 2)"
      if "Suc j \<le> m" for m
    proof -
      from that have "j \<le> m" "j < m" by simp_all
      then show ?thesis
        using rest [of m] by (simp add: t b)
    qed
    show ?thesis
      unfolding P_def using updated untouched by (simp add: t b lc)
  qed
  have "P n (for_loop 0 n body (0, init))"
    by (rule for_loop_invariant [where P = P, OF init]) (simp_all add: step)
  then show "length res = n * 3"
    and "i < n \<Longrightarrow> res ! (i * 3) = X (d * i) i (init ! (i * 3))"
    and "i < n \<Longrightarrow> res ! (i * 3 + 1) = Y (d * i) i (init ! (i * 3 + 1))"
    and "i < n \<Longrightarrow> res ! (i * 3 + 2) = Z (d * i) i (init ! (i * 3 + 2))"
    by (simp_all add: P_def res_def)
qed

lemma useFrame_body_eq:
  assumes "i * 3 + 2 < length cur"
  shows "useFrame_body target sf l time rs i (k, cur) =
     (k + (if sf > 0.1 then 3 else 0),
      cur[i * 3 := binary32 (lerp (cur ! (i * 3)) (adjustedTarget sf (target ! (i * 3)) (rs k)) l),
          i * 3 + 1 := binary32 (binary32 (lerp (cur ! (i * 3 + 1))
                           (adjustedTarget sf (target ! (i * 3 + 1)) (rs (k + 1))) l)
                        + sin (time + real (i * 3)) * 0.01),
          i * 3 + 2 := binary32 (lerp (cur ! (i * 3 + 2))
                           (adjustedTarget sf (target ! (i * 3 + 2)) (rs (k + 2))) l)])"
proof -
  have swap: "xs[Suc m := b, Suc (Suc m) := c, Suc m := b'] = xs[Suc m := b', Suc (Suc m) := c]"
    for xs :: "real list" and m b c b'
    by (simp add: list_update_swap [of "Suc (Suc m)" "Suc m"])
  show ?thesis
    using assms by (simp add: useFrame_body_def Let_def adjustedTarget_def swap)
qed

lemma useFrame_body_length:
  "length (snd (useFrame_body target sf l time rs i st)) = length (snd st)"
  by (cases st) (simp add: useFrame_body_def Let_def)

lemma adjustedTarget_draw:
  "adjustedTarget sf t (rs ((if sf > 0.1 then 3 else 0) * i + a)) = adjustedTarget sf t (rs (3 * i + a))"
  by (simp add: adjustedTarget_def)

lemma useFrame_loop:
  fixes target cur :: "real list" and sf l time :: real and rs :: rng
  assumes "length cur = n * 3" and "i < n"
  defines "res \<equiv> snd (for_loop 0 n (useFrame_body target sf l time rs) (0, cur))"
  shows "res ! (i * 3) =
           binary32 (lerp (cur ! (i * 3)) (adjustedTarget sf (target ! (i * 3)) (rs (3 * i))) l)"
    and "res ! (i * 3 + 1) =
           binary32 (binary32 (lerp (cur ! (i * 3 + 1))
                        (adjustedTarget sf (target ! (i * 3 + 1)) (rs (3 * i + 1))) l)
             + sin (time + real (i * 3)) * 0.01)"
    and "res ! (i * 3 + 2) =
           binary32 (lerp (cur ! (i * 3 + 2))
                        (adjustedTarget sf (target ! (i * 3 + 2)) (rs (3 * i + 2))) l)"
proof -
  have body: "\<forall>i k c. i * 3 + 2 < length c \<longrightarrow> useFrame_body target sf l time rs i (k, c) =
      (k + (if sf > 0.1 then 3 else 0),
       c[i * 3 := (\<lambda>k i v. binary32 (lerp v (adjustedTarget sf (target ! (i * 3)) (rs k)) l))
                    k i (c ! (i * 3)),
         i * 3 + 1 := (\<lambda>k i v. binary32 (binary32 (lerp v
                          (adjustedTarget sf (target ! (i * 3 + 1)) (rs (k + 1))) l)
                        + sin (time + real (i * 3)) * 0.01)) k i (c ! (i * 3 + 1)),
         i * 3 + 2 := (\<lambda>k i v. binary32 (lerp v
                          (adjustedTarget sf (target ! (i * 3 + 2)) (rs (k + 2))) l)) k i
                        (c ! (i * 3 + 2))])"
    by (simp add: useFrame_body_eq)
  note loop = update_loop [where body = "useFrame_body target sf l time rs" and init = cur
      and n = n
      and X = "\<lambda>k i v. binary32 (lerp v (adjustedTarget sf (target ! (i * 3)) (rs k)) l)"
      and Y = "\<lambda>k i v. binary32 (binary32 (lerp v
                          (adjustedTarget sf (target ! (i * 3 + 1)) (rs (k + 1))) l)
                        + sin (time + real (i * 3)) * 0.01)"
      and Z = "\<lambda>k i v. binary32 (lerp v
                          (adjustedTarget sf (target ! (i * 3 + 2)) (rs (k + 2))) l)",
      OF body assms(1), folded res_def]
  show "res ! (i * 3) =
           binary32 (lerp (cur ! (i * 3)) (adjustedTarget sf (target ! (i * 3)) (rs (3 * i))) l)"
    using loop(2) [OF assms(2)] adjustedTarget_draw [of sf _ rs i 0] by simp
  show "res ! (i * 3 + 1) =
           binary32 (binary32 (lerp (cur ! (i * 3 + 1))
                        (adjustedTarget sf (target ! (i * 3 + 1)) (rs (3 * i + 1))) l)
             + sin (time + real (i * 3)) * 0.01)"
    unfolding loop(3) [OF assms(2)] add.assoc [symmetric] adjustedTarget_draw ..
  show "res ! (i * 3 + 2) =
           binary32 (lerp (cur ! (i * 3 + 2))
                        (adjustedTarget sf (target ! (i * 3 + 2)) (rs (3 * i + 2))) l)"
    unfolding loop(4) [OF assms(2)] add.assoc [symmetric] adjustedTarget_draw ..
qed

lemma useFrame_loop_length:
  "length (snd (for_loop 0 n (useFrame_body target sf l time rs) (0, cur))) = length cur"
proof -
  define P where "P j st \<longleftrightarrow> length (snd st) = length cur" for j :: nat and st :: "nat \<times> real list"
  have "P n (for_loop 0 n (useFrame_body target sf l time rs) (0, cur))"
    by (rule for_loop_invariant [where P = P]) (simp_all add: P_def useFrame_body_length)
  then show ?thesis
    by (simp add: P_def)
qed

lemma useFrame_mounted:
  assumes "pointsRef sc = Some pts"
  shows "useFrame time delta gesture rs sc =
     sc\<lparr>currentPositions :=
           snd (for_loop 0 PARTICLE_COUNT
                 (useFrame_body (targetPositions sc) (openness gesture * 3) (3 * delta) time rs)
                 (0, currentPositions sc)),
        pointsRef := Some (pts\<lparr>position_array :=
           snd (for_loop 0 PARTICLE_COUNT
                 (useFrame_body (targetPositions sc) (openness gesture * 3) (3 * delta) time rs)
                 (0, currentPositions sc)),
           rotation_y := (if handDetected gesture
                          then rotation_y pts + (rotationX gesture - 0.5) * 2 * delta * 2
                          else rotation_y pts + 0.1 * delta)\<rparr>)\<rparr>"
  using assms by (simp add: useFrame_def Let_def)

lemma useFrame_coords:
  assumes "pointsRef sc = Some pts" and "length (currentPositions sc) = PARTICLE_COUNT * 3"
    and "i < PARTICLE_COUNT"
  shows "currentPositions (useFrame time delta gesture rs sc) ! (i * 3) =
           binary32 (lerp (currentPositions sc ! (i * 3))
             (adjustedTarget (openness gesture * 3) (targetPositions sc ! (i * 3)) (rs (3 * i)))
             (3 * delta))"
    and "currentPositions (useFrame time delta gesture rs sc) ! (i * 3 + 1) =
           binary32 (binary32 (lerp (currentPositions sc ! (i * 3 + 1))
             (adjustedTarget (openness gesture * 3) (targetPositions sc ! (i * 3 + 1)) (rs (3 * i + 1)))
             (3 * delta))
           + sin (time + real (i * 3)) * 0.01)"
    and "currentPositions (useFrame time delta gesture rs sc) ! (i * 3 + 2) =
           binary32 (lerp (currentPositions sc ! (i * 3 + 2))
             (adjustedTarget (openness gesture * 3) (targetPositions sc ! (i * 3 + 2)) (rs (3 * i + 2)))
             (3 * delta))"
  unfolding useFrame_mounted [OF assms(1)]
  using useFrame_loop [OF assms(2,3)] by simp_all

lemma useFrame_preserves:
  "length (currentPositions (useFrame time delta gesture rs sc)) = length (currentPositions sc)
    \<and> targetPositions (useFrame time delta gesture rs sc) = targetPositions sc
    \<and> colors (useFrame time delta gesture rs sc) = colors sc
    \<and> sizes (useFrame time delta gesture rs sc) = sizes sc
    \<and> (pointsRef (useFrame time delta gesture rs sc) = None) = (pointsRef sc = None)"
proof (cases "pointsRef sc")
  case None
  then show ?thesis
    by (simp add: useFrame_def)
next
  case (Some pts)
  then show ?thesis
    by (simp add: useFrame_mounted useFrame_loop_length)
qed









lemma useFrame_body_no_spread:
  assumes "\<not> sf > 0.1" and "\<not> sf' > 0.1"
  shows "useFrame_body target sf l time rs = useFrame_body target sf' l time rs"
  using assms by (intro ext) (simp add: useFrame_body_def Let_def split: prod.splits)

lemma still_scene_simps:
  "pointsRef still_scene = Some \<lparr>position_array = replicate (PARTICLE_COUNT * 3) 0, rotation_y = 0\<rparr>"
  "length (currentPositions still_scene) = PARTICLE_COUNT * 3"
  "length (targetPositions still_scene) = PARTICLE_COUNT * 3"
  "currentPositions still_scene ! 0 = 0"
  "targetPositions still_scene ! 0 = 1"
  "0 < PARTICLE_COUNT"
  by (simp_all add: still_scene_def PARTICLE_COUNT_def)


lemma binary32_run:
  "binary32 (3 / 10) = 5033165 / 2 ^ 24"
  "binary32 (6 / 5) = 5033165 / 2 ^ 22"
  "binary32 (21 / 10) = 4404019 / 2 ^ 21"
  "binary32 (1 - 7 / (10 * 2 ^ 24)) = 1 - 1 / 2 ^ 24"
  "binary32 (1 - 1 / 2 ^ 24) = 1 - 1 / 2 ^ 24"
proof -
  show "binary32 (3 / 10) = 5033165 / 2 ^ 24"
    unfolding binary32_def
    by (rule round_to_eval [where k = "- 2" and n = 10066330 and e = "- 25", THEN trans])
      (simp_all add: powr_neg_numeral)
  show "binary32 (6 / 5) = 5033165 / 2 ^ 22"
    unfolding binary32_def
    by (rule round_to_eval [where k = 0 and n = 10066330 and e = "- 23", THEN trans])
      (simp_all add: powr_neg_numeral)
  show "binary32 (21 / 10) = 4404019 / 2 ^ 21"
    unfolding binary32_def
    by (rule round_to_eval [where k = 1 and n = 8808038 and e = "- 22", THEN trans])
      (simp_all add: powr_neg_numeral)
  show "binary32 (1 - 7 / (10 * 2 ^ 24)) = 1 - 1 / 2 ^ 24"
    unfolding binary32_def
    by (rule round_to_eval [where k = "- 1" and n = 16777215 and e = "- 24", THEN trans])
      (simp_all add: powr_neg_numeral)
  show "binary32 (1 - 1 / 2 ^ 24) = 1 - 1 / 2 ^ 24"
    using binary32_dyadic [of 16777215 "- 24"] by (simp add: powr_neg_numeral)
qed



section \<open>Claims about the animator and the particle store\<close>




text \<open>
  C2 (rotation sign).  In a mounted scene and for every positive frame time, the frame
  callback adds to the rotation \<open>(rotationX - 0.5) * 2 * 2 * delta\<close> when a hand is
  detected (the rotation gain is 2): a positive amount when \<open>rotationX\<close> is above 0.5, as
  for 0.8, a negative one when it is below, as for 0.2, and nothing at 0.5.  When no hand
  is detected it adds the idle rate 0.1 times the frame time, and the whole frame is the
  same whatever \<open>rotationX\<close> is.
\<close>

theorem C2_rotation_sign:
  assumes "pointsRef sc = Some pts" and "0 < delta"
  shows "\<exists>pts'. pointsRef (useFrame time delta gesture rs sc) = Some pts'
       \<and> (handDetected gesture \<longrightarrow>
             rotation_y pts' - rotation_y pts = (rotationX gesture - 0.5) * 2 * 2 * delta
           \<and> (0.5 < rotationX gesture \<longrightarrow> 0 < rotation_y pts' - rotation_y pts)
           \<and> (rotationX gesture < 0.5 \<longrightarrow> rotation_y pts' - rotation_y pts < 0)
           \<and> (rotationX gesture = 0.8 \<longrightarrow> 0 < rotation_y pts' - rotation_y pts)
           \<and> (rotationX gesture = 0.2 \<longrightarrow> rotation_y pts' - rotation_y pts < 0)
           \<and> (rotationX gesture = 0.5 \<longrightarrow> rotation_y pts' - rotation_y pts = 0))
       \<and> (\<not> handDetected gesture \<longrightarrow>
             rotation_y pts' - rotation_y pts = 0.1 * delta
           \<and> (\<forall>r. useFrame time delta (gesture\<lparr>rotationX := r\<rparr>) rs sc
                    = useFrame time delta gesture rs sc))"
proof (cases "handDetected gesture")
  case True
  have pos: "0 < (r - 0.5) * 2 * delta * 2" if "0.5 < r" for r :: real
    using that assms(2) by simp
  have neg: "(r - 0.5) * 2 * delta * 2 < 0" if "r < 0.5" for r :: real
    using that assms(2) by (simp add: mult_less_0_iff)
  have "(0.5::real) < 0.8" "(0.2::real) < 0.5"
    by simp_all
  with True pos [of "rotationX gesture"] neg [of "rotationX gesture"] show ?thesis
    by (auto simp: useFrame_mounted [OF assms(1)])
next
  case False
  then show ?thesis
    by (simp add: useFrame_mounted [OF assms(1)])
qed

theorem C2_rotation_sign_witness:
  "pointsRef still_scene = Some \<lparr>position_array = replicate (PARTICLE_COUNT * 3) 0, rotation_y = 0\<rparr>
   \<and> (0::real) < 1 / 60
   \<and> (\<exists>pts'. pointsRef (useFrame 0 (1 / 60)
                 (initialGesture\<lparr>rotationX := 0.8, handDetected := True\<rparr>)
                 (constant_draws 0) still_scene) = Some pts'
          \<and> rotation_y pts' = 1 / 50 \<and> 0 < rotation_y pts')
   \<and> (\<exists>pts'. pointsRef (useFrame 0 (1 / 60)
                 (initialGesture\<lparr>rotationX := 0.2, handDetected := True\<rparr>)
                 (constant_draws 0) still_scene) = Some pts'
          \<and> rotation_y pts' = - (1 / 50) \<and> rotation_y pts' < 0)
   \<and> (\<exists>pts'. pointsRef (useFrame 0 (1 / 60) (initialGesture\<lparr>rotationX := 0.8\<rparr>)
                 (constant_draws 0) still_scene) = Some pts'
          \<and> rotation_y pts' = 1 / 600)"
proof -
  have d: "(0::real) < 1 / 60"
    by simp
  note c2 = C2_rotation_sign [OF still_scene_simps(1) d, where time = 0 and rs = "constant_draws 0"]
  have right: "\<exists>pts'. pointsRef (useFrame 0 (1 / 60)
                 (initialGesture\<lparr>rotationX := 0.8, handDetected := True\<rparr>)
                 (constant_draws 0) still_scene) = Some pts'
          \<and> rotation_y pts' = 1 / 50 \<and> 0 < rotation_y pts'"
    using c2 [where gesture = "initialGesture\<lparr>rotationX := 0.8, handDetected := True\<rparr>"]
    by auto
  have left: "\<exists>pts'. pointsRef (useFrame 0 (1 / 60)
                 (initialGesture\<lparr>rotationX := 0.2, handDetected := True\<rparr>)
                 (constant_draws 0) still_scene) = Some pts'
          \<and> rotation_y pts' = - (1 / 50) \<and> rotation_y pts' < 0"
    using c2 [where gesture = "initialGesture\<lparr>rotationX := 0.2, handDetected := True\<rparr>"]
    by auto
  have idle: "\<exists>pts'. pointsRef (useFrame 0 (1 / 60) (initialGesture\<lparr>rotationX := 0.8\<rparr>)
                 (constant_draws 0) still_scene) = Some pts'
          \<and> rotation_y pts' = 1 / 600"
    using c2 [where gesture = "initialGesture\<lparr>rotationX := 0.8\<rparr>"]
    by (auto simp: initialGesture_def)
  show ?thesis
    using right left idle d still_scene_simps(1) by blast
qed

text \<open>
  C5 (animator totality and defensive clamping).  As stated the claim fails: the frame
  callback uses \<open>openness * 3.0\<close> as the spread factor without clamping.  With openness 2
  the first coordinate of the still scene moves to the single-precision number nearest
  to 21/10 in a frame of a tenth of a second; with the clamped openness 1 it moves to the
  one nearest to 6/5.
\<close>

theorem C5_clamp_counterexample:
  "currentPositions (useFrame 0 (1 / 10) (initialGesture\<lparr>openness := 2\<rparr>)
       (constant_draws (1 / 2)) still_scene) ! (0 * 3) = 4404019 / 2 ^ 21
   \<and> currentPositions (useFrame 0 (1 / 10) (initialGesture\<lparr>openness := min (max 2 0) 1\<rparr>)
       (constant_draws (1 / 2)) still_scene) ! (0 * 3) = 5033165 / 2 ^ 22"
proof -
  have wide: "adjustedTarget (openness (initialGesture\<lparr>openness := 2\<rparr>) * 3)
      (targetPositions still_scene ! (0 * 3)) (constant_draws (1 / 2) (3 * 0)) = 7"
    and clamped: "adjustedTarget (openness (initialGesture\<lparr>openness := min (max 2 0) 1\<rparr>) * 3)
      (targetPositions still_scene ! (0 * 3)) (constant_draws (1 / 2) (3 * 0)) = 4"
    by (simp_all add: adjustedTarget_def still_scene_simps constant_draws_def)
  have p: "currentPositions still_scene ! (0 * 3) = 0"
    by (simp add: still_scene_simps)
  have l: "lerp 0 7 (3 * (1 / 10)) = 21 / 10" "lerp 0 4 (3 * (1 / 10)) = 6 / 5"
    by (simp_all add: lerp_def)
  show ?thesis
    unfolding useFrame_coords(1) [OF still_scene_simps(1,2,6)] wide clamped p l binary32_run
    by (intro conjI refl)
qed

text \<open>
  C5, amended.  The frame callback is a total function of its inputs with no error
  path: for every input it returns a scene whose buffers have the lengths they had, with
  targets, colours and sizes untouched, and a mounted scene stays mounted.  It does not
  clamp openness; the clamp to \<open>[0, 1]\<close> is in the gesture interpreter.  For every gesture
  state with openness at most 1, negative ones included, the frame is the same as with
  openness replaced by its clamp into \<open>[0, 1]\<close>; an openness above 1 is used as it is.
\<close>

theorem C5_animator_total:
  "length (currentPositions (useFrame time delta gesture rs sc)) = length (currentPositions sc)
   \<and> targetPositions (useFrame time delta gesture rs sc) = targetPositions sc
   \<and> colors (useFrame time delta gesture rs sc) = colors sc
   \<and> sizes (useFrame time delta gesture rs sc) = sizes sc
   \<and> (pointsRef (useFrame time delta gesture rs sc) = None) = (pointsRef sc = None)
   \<and> (openness gesture \<le> 1 \<longrightarrow>
        useFrame time delta gesture rs sc =
        useFrame time delta (gesture\<lparr>openness := min (max (openness gesture) 0) 1\<rparr>) rs sc)"
proof -
  have "useFrame time delta gesture rs sc =
        useFrame time delta (gesture\<lparr>openness := min (max (openness gesture) 0) 1\<rparr>) rs sc"
    if "openness gesture \<le> 1"
  proof (cases "0 \<le> openness gesture")
    case True
    with that have "min (max (openness gesture) 0) 1 = openness gesture"
      by simp
    then show ?thesis
      by simp
  next
    case False
    then have clamp: "min (max (openness gesture) 0) 1 = 0"
      by simp
    have body: "useFrame_body (targetPositions sc) (openness gesture * 3) (3 * delta) time rs =
          useFrame_body (targetPositions sc) (0 * 3) (3 * delta) time rs"
      using False by (intro useFrame_body_no_spread) simp_all
    show ?thesis
    proof (cases "pointsRef sc")
      case None
      then show ?thesis
        by (simp add: useFrame_def)
    next
      case (Some pts)
      with body show ?thesis
        by (simp add: useFrame_mounted clamp)
    qed
  qed
  then show ?thesis
    using useFrame_preserves [of time delta gesture rs sc] by simp
qed

theorem C5_animator_total_witness:
  "length (currentPositions (useFrame 0 (1 / 10) (initialGesture\<lparr>openness := - (1 / 10)\<rparr>)
       (constant_draws (1 / 2)) still_scene)) = length (currentPositions still_scene)
   \<and> - (1 / 10) \<le> (1::real)
   \<and> useFrame 0 (1 / 10) (initialGesture\<lparr>openness := - (1 / 10)\<rparr>) (constant_draws (1 / 2))
        still_scene =
      useFrame 0 (1 / 10) (initialGesture\<lparr>openness := min (max (- (1 / 10)) 0) 1\<rparr>)
        (constant_draws (1 / 2)) still_scene"
proof -
  note total = C5_animator_total [of 0 "1 / 10" "initialGesture\<lparr>openness := - (1 / 10)\<rparr>"
      "constant_draws (1 / 2)" still_scene]
  have le: "openness (initialGesture\<lparr>openness := - (1 / 10)\<rparr>) \<le> 1"
    by simp
  note same = total [THEN conjunct2, THEN conjunct2, THEN conjunct2, THEN conjunct2,
      THEN conjunct2, rule_format, OF le]
  show ?thesis
  proof (intro conjI)
    show "length (currentPositions (useFrame 0 (1 / 10) (initialGesture\<lparr>openness := - (1 / 10)\<rparr>)
       (constant_draws (1 / 2)) still_scene)) = length (currentPositions still_scene)"
      by (rule total [THEN conjunct1])
    show "- (1 / 10) \<le> (1::real)"
      by simp
    show "useFrame 0 (1 / 10) (initialGesture\<lparr>openness := - (1 / 10)\<rparr>) (constant_draws (1 / 2))
        still_scene =
      useFrame 0 (1 / 10) (initialGesture\<lparr>openness := min (max (- (1 / 10)) 0) 1\<rparr>)
        (constant_draws (1 / 2)) still_scene"
      using same by simp
  qed
qed

text \<open>
  C6 (retarget frame effect).  When the shape changes, for instance from the tree to the
  heart, the effect copies the output of the new shape's generator into the target
  buffer: afterwards every element of the target buffer equals the corresponding element
  of the generator's output, and the position buffer, the colour and size buffers and
  the points ref are as they were; positions only move in the next frame callback.
\<close>

theorem C6_retarget_frame:
  assumes "length (targetPositions sc) = PARTICLE_COUNT * 3"
  shows "(\<forall>j < PARTICLE_COUNT * 3.
            targetPositions (retarget shape rs sc) ! j = generate shape PARTICLE_COUNT rs ! j)
       \<and> length (targetPositions (retarget shape rs sc)) = PARTICLE_COUNT * 3
       \<and> currentPositions (retarget shape rs sc) = currentPositions sc
       \<and> colors (retarget shape rs sc) = colors sc
       \<and> sizes (retarget shape rs sc) = sizes sc
       \<and> pointsRef (retarget shape rs sc) = pointsRef sc
       \<and> generate HEART PARTICLE_COUNT rs = generateHeartPoints PARTICLE_COUNT rs"
proof -
  have target: "targetPositions (retarget shape rs sc) = generate shape PARTICLE_COUNT rs"
    using copy_loop [OF assms generate_length] by (simp add: retarget_def Let_def)
  have others: "currentPositions (retarget shape rs sc) = currentPositions sc"
    "colors (retarget shape rs sc) = colors sc" "sizes (retarget shape rs sc) = sizes sc"
    "pointsRef (retarget shape rs sc) = pointsRef sc"
    by (simp_all add: retarget_def Let_def)
  have heart: "generate HEART PARTICLE_COUNT rs = generateHeartPoints PARTICLE_COUNT rs"
    by (simp add: generate_def)
  show ?thesis
    unfolding target others using heart by (simp add: generate_length)
qed

theorem C6_retarget_frame_witness:
  "length (targetPositions (still_scene\<lparr>targetPositions :=
              generate TREE PARTICLE_COUNT (constant_draws (1 / 2))\<rparr>)) = PARTICLE_COUNT * 3
   \<and> 0 < PARTICLE_COUNT * 3
   \<and> targetPositions (retarget HEART (constant_draws (1 / 2))
         (still_scene\<lparr>targetPositions := generate TREE PARTICLE_COUNT (constant_draws (1 / 2))\<rparr>)) ! 0
       = generate HEART PARTICLE_COUNT (constant_draws (1 / 2)) ! 0
   \<and> currentPositions (retarget HEART (constant_draws (1 / 2))
         (still_scene\<lparr>targetPositions := generate TREE PARTICLE_COUNT (constant_draws (1 / 2))\<rparr>))
       = currentPositions still_scene"
proof -
  have len: "length (targetPositions (still_scene\<lparr>targetPositions :=
              generate TREE PARTICLE_COUNT (constant_draws (1 / 2))\<rparr>)) = PARTICLE_COUNT * 3"
    by (simp add: generate_length)
  have pos: "0 < PARTICLE_COUNT * 3"
    using still_scene_simps(6) by simp
  from C6_retarget_frame [OF len, of HEART "constant_draws (1 / 2)"] len pos show ?thesis
    by simp
qed

end
